theory Spec2Isabelle
  imports Complex_Main "HOL-Library.AList"
begin

section \<open>parseidf: tokenizer, grammar and zone extraction\<close>

text \<open>
  A shallow embedding of \<^verbatim>\<open>parseidf.py\<close>. Python strings are character lists
  (the development covers ASCII text: on characters above 127 the \<open>upper\<close> and
  \<open>strip\<close> below change nothing, where Python's may), Python lists are lists, and the insertion-ordered
  dictionaries of the program are association lists with pairwise distinct keys. Every
  exception the program can raise is a value of type \<open>error\<close>; a function that can
  raise returns \<open>error + 'a\<close>.
\<close>

datatype error =
    LexError char nat   \<comment> \<open>\<^verbatim>\<open>t_error\<close>: illegal character, lexer line\<close>
  | ParseError nat      \<comment> \<open>\<^verbatim>\<open>p_error\<close>: lexer line when the syntax error is found\<close>
  | IndexError          \<comment> \<open>list index out of range\<close>
  | ValueError          \<comment> \<open>\<^verbatim>\<open>float\<close>, \<^verbatim>\<open>int\<close> or \<^verbatim>\<open>list.index\<close> failed\<close>
  | KeyError            \<comment> \<open>dictionary subscript without the key\<close>
  | TypeError           \<comment> \<open>operation on an object of the wrong type\<close>

text \<open>Sequencing: an exception raised by the first computation ends the whole.\<close>

definition bind_err :: "error + 'a \<Rightarrow> ('a \<Rightarrow> error + 'b) \<Rightarrow> error + 'b" where
  "bind_err m f = (case m of Inl e \<Rightarrow> Inl e | Inr x \<Rightarrow> f x)"

lemma bind_err_simps [simp]:
  "bind_err (Inl e) f = Inl e"
  "bind_err (Inr x) f = f x"
  by (simp_all add: bind_err_def)

lemma bind_err_cong [fundef_cong]:
  "m = m' \<Longrightarrow> (\<And>x. m' = Inr x \<Longrightarrow> f x = f' x) \<Longrightarrow> bind_err m f = bind_err m' f'"
  by (cases m') (simp_all add: bind_err_def)

lemma bind_err_Inr_iff:
  "bind_err m f = Inr y \<longleftrightarrow> (\<exists>x. m = Inr x \<and> f x = Inr y)"
  by (cases m) simp_all

text \<open>List indexing with a non-negative index: out of range is \<^verbatim>\<open>IndexError\<close>.\<close>

definition getitem :: "'a list \<Rightarrow> nat \<Rightarrow> error + 'a" where
  "getitem xs i = (if i < length xs then Inr (xs ! i) else Inl IndexError)"

subsection \<open>Characters and string builtins\<close>

abbreviation (input) TAB :: char where "TAB \<equiv> CHR 0x09"
abbreviation (input) NL :: char where "NL \<equiv> CHR 0x0A"
abbreviation (input) CR :: char where "CR \<equiv> CHR 0x0D"
abbreviation (input) SP :: char where "SP \<equiv> CHR 0x20"

text \<open>The character classes of the token rules.\<close>

definition blank :: "char \<Rightarrow> bool" where  \<comment> \<open>\<^verbatim>\<open>[ \t]\<close>\<close>
  "blank c \<longleftrightarrow> c = SP \<or> c = TAB"

definition blank_or_eol :: "char \<Rightarrow> bool" where  \<comment> \<open>\<^verbatim>\<open>[ \t\r\n]\<close>\<close>
  "blank_or_eol c \<longleftrightarrow> c = SP \<or> c = TAB \<or> c = CR \<or> c = NL"

definition value_char :: "char \<Rightarrow> bool" where  \<comment> \<open>\<^verbatim>\<open>[^!,;\n]|[*]\<close>\<close>
  "value_char c \<longleftrightarrow> (c \<noteq> CHR ''!'' \<and> c \<noteq> CHR '','' \<and> c \<noteq> CHR '';'' \<and> c \<noteq> NL) \<or> c = CHR ''*''"

text \<open>
  \<^verbatim>\<open>str.strip()\<close> removes leading and trailing whitespace; the ASCII whitespace
  characters are 9 to 13, 28 to 31 and 32.
\<close>

definition isspace :: "char \<Rightarrow> bool" where
  "isspace c \<longleftrightarrow> (let n = (of_char c :: nat) in (9 \<le> n \<and> n \<le> 13) \<or> (28 \<le> n \<and> n \<le> 32))"

definition strip :: "string \<Rightarrow> string" where
  "strip s = rev (dropWhile isspace (rev (dropWhile isspace s)))"

text \<open>\<^verbatim>\<open>str.upper()\<close> on ASCII text: the letters a to z move to A to Z.\<close>

definition upper_char :: "char \<Rightarrow> char" where
  "upper_char c = (let n = (of_char c :: nat) in if 97 \<le> n \<and> n \<le> 122 then char_of (n - 32) else c)"

definition upper :: "string \<Rightarrow> string" where
  "upper s = map upper_char s"

subsection \<open>Tokenizer\<close>

text \<open>
  The token rules are regular expressions handed to the lexer generator, which joins them
  into one alternation: the function rules in the order they are written
  (\<^verbatim>\<open>t_COMMENT\<close>, \<^verbatim>\<open>t_newline\<close>, \<^verbatim>\<open>t_VALUE\<close>), then the string rules
  (\<^verbatim>\<open>t_COMMA\<close>, \<^verbatim>\<open>t_SEMICOLON\<close>). At each position the first alternative that
  matches wins, and inside an alternative the quantifiers are greedy with backtracking.
  Each rule below returns the length of its match at the head of the remaining input,
  or \<open>None\<close> where the rule does not match.
\<close>

text \<open>
  \<^verbatim>\<open>[ \t\r\n]*!.*\<close>: the whitespace run cannot give a character back to \<^verbatim>\<open>!\<close>, so
  the rule matches exactly where the run is followed by \<^verbatim>\<open>!\<close>; the dot stops at
  a line feed.
\<close>

definition m_COMMENT :: "string \<Rightarrow> nat option" where
  "m_COMMENT s =
     (let ws = takeWhile blank_or_eol s; r = dropWhile blank_or_eol s
      in case r of
           [] \<Rightarrow> None
         | c # r' \<Rightarrow>
             if c = CHR ''!'' then Some (length ws + 1 + length (takeWhile (\<lambda>d. d \<noteq> NL) r'))
             else None)"

text \<open>
  \<^verbatim>\<open>(\r?\n)+\<close>: the length of the longest prefix made of line feeds, each one
  possibly preceded by a carriage return.
\<close>

fun eol_run :: "string \<Rightarrow> nat" where
  "eol_run [] = 0"
| "eol_run [c] = (if c = NL then 1 else 0)"
| "eol_run (c # d # s) =
     (if c = NL then Suc (eol_run (d # s))
      else if c = CR \<and> d = NL then Suc (Suc (eol_run s))
      else 0)"

definition m_newline :: "string \<Rightarrow> nat option" where  \<comment> \<open>\<^verbatim>\<open>[ \t]*(\r?\n)+\<close>\<close>
  "m_newline s =
     (let sp = takeWhile blank s; n = eol_run (dropWhile blank s)
      in if n = 0 then None else Some (length sp + n))"

text \<open>
  \<^verbatim>\<open>[ \t]*([^!,;\n]|[*])+[ \t]*\<close>: blanks are value characters too, so with
  backtracking the match is the longest run of value characters, when it is not empty.
\<close>

definition m_VALUE :: "string \<Rightarrow> nat option" where
  "m_VALUE s = (let v = takeWhile value_char s in if v = [] then None else Some (length v))"

definition m_separator :: "char \<Rightarrow> string \<Rightarrow> nat option" where  \<comment> \<open>\<^verbatim>\<open>[ \t]*X[ \t]*\<close>\<close>
  "m_separator x s =
     (let sp = takeWhile blank s; r = dropWhile blank s
      in case r of
           [] \<Rightarrow> None
         | c # r' \<Rightarrow> if c = x then Some (length sp + 1 + length (takeWhile blank r')) else None)"

definition m_COMMA :: "string \<Rightarrow> nat option" where
  "m_COMMA = m_separator (CHR '','')"

definition m_SEMICOLON :: "string \<Rightarrow> nat option" where
  "m_SEMICOLON = m_separator (CHR '';'')"

datatype kind = VALUE | COMMA | SEMICOLON

record token =
  kind :: kind
  text_of :: string   \<comment> \<open>\<^verbatim>\<open>t.value\<close>, the matched text\<close>
  lineno :: nat       \<comment> \<open>the lexer's line counter when the token was produced\<close>

text \<open>How the token stream ends: at the end of the input, or in \<^verbatim>\<open>t_error\<close>.\<close>

datatype lex_end = Eof nat | Illegal char nat

lemma m_COMMENT_pos: "m_COMMENT s = Some n \<Longrightarrow> 0 < n \<and> s \<noteq> []"
  by (auto simp: m_COMMENT_def Let_def split: list.splits if_splits)

lemma m_newline_pos: "m_newline s = Some n \<Longrightarrow> 0 < n \<and> s \<noteq> []"
  by (auto simp: m_newline_def Let_def split: if_splits)

lemma m_VALUE_pos: "m_VALUE s = Some n \<Longrightarrow> 0 < n \<and> s \<noteq> []"
  by (auto simp: m_VALUE_def Let_def split: if_splits)

lemma m_separator_pos: "m_separator x s = Some n \<Longrightarrow> 0 < n \<and> s \<noteq> []"
  by (auto simp: m_separator_def Let_def split: list.splits if_splits)

text \<open>
  The lexer's loop (\<^verbatim>\<open>Lexer.token\<close>, called until the input is exhausted), started on
  the remaining input and the line counter \<^verbatim>\<open>lexer.lineno\<close>.
  \<^item> \<^verbatim>\<open>t_COMMENT\<close> adds the number of line feeds of its match to \<^verbatim>\<open>t.lineno\<close>, a field
    of the token it then discards; \<^verbatim>\<open>lexer.lineno\<close> is left as it was.
  \<^item> \<^verbatim>\<open>t_newline\<close> adds \<^verbatim>\<open>len(t.value)\<close>, the length of the whole match, to
    \<^verbatim>\<open>lexer.lineno\<close>.
  \<^item> \<^verbatim>\<open>t_VALUE\<close> and the two string rules return a token.
  \<^item> Where no rule matches, \<^verbatim>\<open>t_error\<close> raises with the character and the line.
\<close>

function lex_tokens :: "string \<Rightarrow> nat \<Rightarrow> token list \<times> lex_end" where
  "lex_tokens s lno =
     (if s = [] then ([], Eof lno)
      else case m_COMMENT s of
        Some n \<Rightarrow> lex_tokens (drop n s) lno
      | None \<Rightarrow> (case m_newline s of
        Some n \<Rightarrow> lex_tokens (drop n s) (lno + n)
      | None \<Rightarrow> (case m_VALUE s of
        Some n \<Rightarrow>
          (let (ts, e) = lex_tokens (drop n s) lno
           in (\<lparr>kind = VALUE, text_of = take n s, lineno = lno\<rparr> # ts, e))
      | None \<Rightarrow> (case m_COMMA s of
        Some n \<Rightarrow>
          (let (ts, e) = lex_tokens (drop n s) lno
           in (\<lparr>kind = COMMA, text_of = take n s, lineno = lno\<rparr> # ts, e))
      | None \<Rightarrow> (case m_SEMICOLON s of
        Some n \<Rightarrow>
          (let (ts, e) = lex_tokens (drop n s) lno
           in (\<lparr>kind = SEMICOLON, text_of = take n s, lineno = lno\<rparr> # ts, e))
      | None \<Rightarrow> ([], Illegal (hd s) lno))))))"
  by pat_completeness auto
termination
proof (relation "measure (\<lambda>(s, lno). length s)")
  show "wf (measure (\<lambda>(s, lno). length s))" by simp
qed (auto dest: m_COMMENT_pos m_newline_pos m_VALUE_pos m_separator_pos
      simp: m_COMMA_def m_SEMICOLON_def)

declare lex_tokens.simps [simp del]

subsection \<open>Grammar\<close>

text \<open>
  The grammar of the \<^verbatim>\<open>p_\<close> functions:
  \<^verbatim>\<open>
  idffile       : idfobjectlist
  idfobjectlist : idfobject | idfobject idfobjectlist
  idfobject     : objectname SEMICOLON | objectname COMMA valuelist SEMICOLON
  objectname    : VALUE
  valuelist     : VALUE | VALUE COMMA valuelist
  \<close>
  The generated parser reads the tokens from left to right with one token of lookahead and
  calls \<^verbatim>\<open>p_error\<close> at the first token that cannot continue a sentence, or at the end of
  the input where a sentence is incomplete. \<^verbatim>\<open>p_error\<close> raises with the lexer's current
  line counter, which is the counter after that token was read. One function per
  nonterminal follows; each returns the value its rule builds and the tokens left.
\<close>

fun stop :: "lex_end \<Rightarrow> error" where
  "stop (Eof lno) = ParseError lno"
| "stop (Illegal c lno) = LexError c lno"

fun p_valuelist :: "lex_end \<Rightarrow> token list \<Rightarrow> error + (string list \<times> token list)" where
  "p_valuelist e [] = Inl (stop e)"
| "p_valuelist e [t] = (if kind t = VALUE then Inl (stop e) else Inl (ParseError (lineno t)))"
| "p_valuelist e (t # s # ts) =
     (if kind t \<noteq> VALUE then Inl (ParseError (lineno t))
      else case kind s of
        SEMICOLON \<Rightarrow> Inr ([strip (text_of t)], s # ts)
      | COMMA \<Rightarrow> bind_err (p_valuelist e ts) (\<lambda>(vs, r). Inr (strip (text_of t) # vs, r))
      | VALUE \<Rightarrow> Inl (ParseError (lineno s)))"

type_synonym idfobject = "string list"

fun p_idfobject :: "lex_end \<Rightarrow> token list \<Rightarrow> error + (idfobject \<times> token list)" where
  "p_idfobject e [] = Inl (stop e)"
| "p_idfobject e [t] = (if kind t = VALUE then Inl (stop e) else Inl (ParseError (lineno t)))"
| "p_idfobject e (t # s # ts) =
     (if kind t \<noteq> VALUE then Inl (ParseError (lineno t))
      else case kind s of
        SEMICOLON \<Rightarrow> Inr ([strip (text_of t)], ts)
      | COMMA \<Rightarrow>
          bind_err (p_valuelist e ts) (\<lambda>(vs, r).
            case r of
              [] \<Rightarrow> Inl (stop e)
            | u # r' \<Rightarrow>
                if kind u = SEMICOLON then Inr (strip (text_of t) # vs, r')
                else Inl (ParseError (lineno u)))
      | VALUE \<Rightarrow> Inl (ParseError (lineno s)))"

lemma p_valuelist_shorter: "p_valuelist e ts = Inr (vs, r) \<Longrightarrow> length r < length ts"
  by (induction e ts arbitrary: vs r rule: p_valuelist.induct)
    (auto simp: bind_err_Inr_iff split: if_splits kind.splits)

lemma p_idfobject_Inr:
  assumes "p_idfobject e ts = Inr (obj, r)"
  shows "\<exists>t s ts'. ts = t # s # ts' \<and> kind t = VALUE \<and>
           ((kind s = SEMICOLON \<and> obj = [strip (text_of t)] \<and> r = ts') \<or>
            (kind s = COMMA \<and>
              (\<exists>vs u. p_valuelist e ts' = Inr (vs, u # r) \<and> kind u = SEMICOLON
                 \<and> obj = strip (text_of t) # vs)))"
proof (cases "(e, ts)" rule: p_idfobject.cases)
  case (1 e')
  with assms show ?thesis by simp
next
  case (2 e' t)
  with assms show ?thesis by (simp split: if_splits)
next
  case (3 e' t s ts')
  with assms have v: "kind t = VALUE" by (auto split: if_splits)
  show ?thesis
  proof (cases "kind s")
    case VALUE
    with assms 3 v show ?thesis by simp
  next
    case SEMICOLON
    with assms 3 v show ?thesis by simp
  next
    case COMMA
    with assms 3 v obtain vs r0 where
      pv: "p_valuelist e ts' = Inr (vs, r0)" and
      r0: "(case r0 of [] \<Rightarrow> Inl (stop e)
            | u # r' \<Rightarrow> if kind u = SEMICOLON then Inr (strip (text_of t) # vs, r')
                         else Inl (ParseError (lineno u))) = Inr (obj, r)"
      by (auto simp: bind_err_Inr_iff)
    from r0 obtain u where "r0 = u # r" "kind u = SEMICOLON" "obj = strip (text_of t) # vs"
      by (cases r0) (auto split: if_splits)
    with pv 3 v COMMA show ?thesis by simp
  qed
qed

lemma p_idfobject_shorter: "p_idfobject e ts = Inr (obj, r) \<Longrightarrow> length r < length ts"
  by (auto dest!: p_idfobject_Inr p_valuelist_shorter)

function p_idfobjectlist :: "lex_end \<Rightarrow> token list \<Rightarrow> error + idfobject list" where
  "p_idfobjectlist e ts =
     bind_err (p_idfobject e ts) (\<lambda>(obj, r).
       if r = [] then (case e of Eof lno \<Rightarrow> Inr [obj] | Illegal c lno \<Rightarrow> Inl (LexError c lno))
       else bind_err (p_idfobjectlist e r) (\<lambda>objs. Inr (obj # objs)))"
  by pat_completeness auto
termination
proof (relation "measure (\<lambda>(e, ts). length ts)")
  show "wf (measure (\<lambda>(e, ts). length ts))" by simp
qed (auto dest: p_idfobject_shorter)

declare p_idfobjectlist.simps [simp del]

text \<open>
  \<^verbatim>\<open>p_idffile\<close> groups the objects in a fresh dictionary:
  \<^verbatim>\<open>result.setdefault(name.upper(), []).append(idfobject)\<close> appends to the list under the
  key, after adding the key with an empty list at the end of the dictionary where it is new.
\<close>

type_synonym parsed_idf = "(string \<times> idfobject list) list"

definition setdefault_append :: "string \<Rightarrow> idfobject \<Rightarrow> parsed_idf \<Rightarrow> parsed_idf" where
  "setdefault_append k obj result =
     (case map_of result k of
        None \<Rightarrow> result @ [(k, [obj])]
      | Some objs \<Rightarrow> AList.update k (objs @ [obj]) result)"

fun group_objects :: "parsed_idf \<Rightarrow> idfobject list \<Rightarrow> error + parsed_idf" where
  "group_objects result [] = Inr result"
| "group_objects result (idfobject # rest) =
     bind_err (getitem idfobject 0) (\<lambda>name.
       group_objects (setdefault_append (upper name) idfobject result) rest)"

definition p_idffile :: "idfobject list \<Rightarrow> error + parsed_idf" where
  "p_idffile objs = group_objects [] objs"

text \<open>
  \<^verbatim>\<open>parse\<close>: a fresh lexer starts on line 1. \<open>idfobjectlist\<close> is the value of the
  nonterminal of that name for the whole input (\<^verbatim>\<open>p[1]\<close> in \<^verbatim>\<open>p_idffile\<close>): the
  objects in the order of the input.
\<close>

definition idfobjectlist :: "string \<Rightarrow> error + idfobject list" where
  "idfobjectlist input = (let (ts, e) = lex_tokens input 1 in p_idfobjectlist e ts)"

definition parse :: "string \<Rightarrow> error + parsed_idf" where
  "parse input = bind_err (idfobjectlist input) p_idffile"

subsection \<open>Number builtins\<close>

text \<open>
  \<^verbatim>\<open>int(s)\<close> on a decimal literal: surrounding whitespace, an optional sign, then
  digits (the underscore separators of Python are left out). Anything else is
  \<^verbatim>\<open>ValueError\<close>.
\<close>

definition digit_val :: "char \<Rightarrow> nat option" where
  "digit_val c = (let n = (of_char c :: nat) in if 48 \<le> n \<and> n \<le> 57 then Some (n - 48) else None)"

fun digits_val :: "nat \<Rightarrow> string \<Rightarrow> nat option" where
  "digits_val acc [] = Some acc"
| "digits_val acc (c # cs) =
     (case digit_val c of None \<Rightarrow> None | Some d \<Rightarrow> digits_val (10 * acc + d) cs)"

definition unsigned_val :: "string \<Rightarrow> nat option" where
  "unsigned_val s = (if s = [] then None else digits_val 0 s)"

definition py_int :: "string \<Rightarrow> error + int" where
  "py_int s =
     (let t = strip s;
          v = (case t of
                 [] \<Rightarrow> None
               | c # r \<Rightarrow>
                   if c = CHR ''-'' then map_option (\<lambda>n. - int n) (unsigned_val r)
                   else if c = CHR ''+'' then map_option int (unsigned_val r)
                   else map_option int (unsigned_val t))
      in case v of None \<Rightarrow> Inl ValueError | Some n \<Rightarrow> Inr n)"

text \<open>
  \<^verbatim>\<open>float(s)\<close> is a parameter of the extraction: a function \<open>flt\<close> from strings to
  the floating-point values \<open>'f\<close>, with \<open>None\<close> where \<^verbatim>\<open>float\<close> raises
  \<^verbatim>\<open>ValueError\<close>. What is proved below holds for every such function.
\<close>

definition py_float :: "(string \<Rightarrow> 'f option) \<Rightarrow> string \<Rightarrow> error + 'f" where
  "py_float flt s = (case flt s of None \<Rightarrow> Inl ValueError | Some x \<Rightarrow> Inr x)"

text \<open>
  To run the extraction on concrete records, \<open>dec_float\<close> decodes the plain decimal
  literals among the strings \<^verbatim>\<open>float\<close> accepts (optional sign, digits, optional
  fraction) to their exact value, and rejects every other string.
\<close>

definition dec_float :: "string \<Rightarrow> rat option" where
  "dec_float s =
     (let t = strip s;
          neg = (t \<noteq> [] \<and> hd t = CHR ''-'');
          u = (if t \<noteq> [] \<and> (hd t = CHR ''-'' \<or> hd t = CHR ''+'') then tl t else t);
          ip = takeWhile (\<lambda>c. c \<noteq> CHR ''.'') u;
          fp = drop 1 (dropWhile (\<lambda>c. c \<noteq> CHR ''.'') u)
      in case unsigned_val (ip @ fp) of
           None \<Rightarrow> None
         | Some n \<Rightarrow> Some ((if neg then - 1 else 1) * of_nat n / 10 ^ length fp))"

subsection \<open>Zone and surface extraction\<close>

type_synonym 'f point = "'f \<times> 'f \<times> 'f"

record 'f zone =
  origin :: "'f point"
  surfaces :: "'f point list list"

type_synonym 'f zones = "(string \<times> 'f zone) list"

text \<open>\<^verbatim>\<open>parsed_idf.get(key, [])\<close>\<close>

definition get_list :: "parsed_idf \<Rightarrow> string \<Rightarrow> idfobject list" where
  "get_list parsed_idf key = (case map_of parsed_idf key of None \<Rightarrow> [] | Some objs \<Rightarrow> objs)"

text \<open>
  The body of the first loop. The subscripts and conversions run in the order of the
  source text; none of them is inside a \<^verbatim>\<open>try\<close>. Assigning to a key the dictionary
  already has replaces the value and keeps the key's place.
\<close>

definition zone_body :: "(string \<Rightarrow> 'f option) \<Rightarrow> 'f zones \<Rightarrow> idfobject \<Rightarrow> error + 'f zones" where
  "zone_body flt zones zone =
     bind_err (getitem zone 1) (\<lambda>zone_name.
     bind_err (getitem zone 3) (\<lambda>f3. bind_err (py_float flt f3) (\<lambda>x.
     bind_err (getitem zone 4) (\<lambda>f4. bind_err (py_float flt f4) (\<lambda>y.
     bind_err (getitem zone 5) (\<lambda>f5. bind_err (py_float flt f5) (\<lambda>z.
       Inr (AList.update zone_name \<lparr>origin = (x, y, z), surfaces = []\<rparr> zones))))))))"

fun zone_loop :: "(string \<Rightarrow> 'f option) \<Rightarrow> 'f zones \<Rightarrow> idfobject list \<Rightarrow> error + 'f zones" where
  "zone_loop flt zones [] = Inr zones"
| "zone_loop flt zones (zone # rest) =
     bind_err (zone_body flt zones zone) (\<lambda>zones'. zone_loop flt zones' rest)"

text \<open>\<^verbatim>\<open>surface.index('4')\<close>: the first position of the value, or \<^verbatim>\<open>ValueError\<close>.\<close>

fun index :: "'a list \<Rightarrow> 'a \<Rightarrow> error + nat" where
  "index [] v = Inl ValueError"
| "index (x # xs) v = (if x = v then Inr 0 else bind_err (index xs v) (\<lambda>i. Inr (Suc i)))"

text \<open>The loop \<^verbatim>\<open>for i in range(num_vertices)\<close>, over the values of \<^verbatim>\<open>i\<close> still to come.\<close>

fun vertex_loop ::
  "(string \<Rightarrow> 'f option) \<Rightarrow> idfobject \<Rightarrow> nat \<Rightarrow> nat list \<Rightarrow> 'f point list \<Rightarrow> error + 'f point list"
where
  "vertex_loop flt surface vertices_start_index [] vertices = Inr vertices"
| "vertex_loop flt surface vertices_start_index (i # rest) vertices =
     bind_err (getitem surface (vertices_start_index + i * 3)) (\<lambda>fx.
     bind_err (py_float flt fx) (\<lambda>x.
     bind_err (getitem surface (vertices_start_index + i * 3 + 1)) (\<lambda>fy.
     bind_err (py_float flt fy) (\<lambda>y.
     bind_err (getitem surface (vertices_start_index + i * 3 + 2)) (\<lambda>fz.
     bind_err (py_float flt fz) (\<lambda>z.
       vertex_loop flt surface vertices_start_index rest (vertices @ [(x, y, z)])))))))"

text \<open>The statements inside the \<^verbatim>\<open>try\<close>, up to the finished vertex list.\<close>

definition surface_vertices :: "(string \<Rightarrow> 'f option) \<Rightarrow> idfobject \<Rightarrow> error + 'f point list" where
  "surface_vertices flt surface =
     bind_err (index surface ''4'') (\<lambda>num_vertices_index.
     bind_err (getitem surface num_vertices_index) (\<lambda>count.
     bind_err (py_int count) (\<lambda>num_vertices.
       vertex_loop flt surface (num_vertices_index + 1) [0 ..< nat num_vertices] [])))"

text \<open>
  The body of the second loop, on the zones and on the surfaces reported so far (the
  records whose error message was printed). \<^verbatim>\<open>surface[4]\<close> is read before the
  \<^verbatim>\<open>try\<close>; the handler catches \<^verbatim>\<open>ValueError\<close> and nothing else.
\<close>

definition append_surface :: "string \<Rightarrow> 'f point list \<Rightarrow> 'f zones \<Rightarrow> 'f zones" where
  "append_surface zone_name vertices zones =
     AList.map_entry zone_name (\<lambda>z. z\<lparr>surfaces := surfaces z @ [vertices]\<rparr>) zones"

definition surface_body ::
  "(string \<Rightarrow> 'f option) \<Rightarrow> 'f zones \<times> idfobject list \<Rightarrow> idfobject \<Rightarrow> error + 'f zones \<times> idfobject list"
where
  "surface_body flt st surface =
     (let (zones, reported) = st
      in bind_err (getitem surface 4) (\<lambda>zone_name.
           if zone_name \<in> set (map fst zones) then
             (case surface_vertices flt surface of
                Inr vertices \<Rightarrow> Inr (append_surface zone_name vertices zones, reported)
              | Inl err \<Rightarrow>
                  if err = ValueError then Inr (zones, reported @ [surface]) else Inl err)
           else Inr (zones, reported)))"

fun surface_loop ::
  "(string \<Rightarrow> 'f option) \<Rightarrow> 'f zones \<times> idfobject list \<Rightarrow> idfobject list \<Rightarrow> error + 'f zones \<times> idfobject list"
where
  "surface_loop flt st [] = Inr st"
| "surface_loop flt st (surface # rest) =
     bind_err (surface_body flt st surface) (\<lambda>st'. surface_loop flt st' rest)"

text \<open>
  \<^verbatim>\<open>extract_zones\<close> returns the zones; the second component of the result lists the
  surfaces it reported on the way.
\<close>

definition extract_zones ::
  "(string \<Rightarrow> 'f option) \<Rightarrow> parsed_idf \<Rightarrow> error + 'f zones \<times> idfobject list"
where
  "extract_zones flt parsed_idf =
     bind_err (zone_loop flt [] (get_list parsed_idf ''ZONE'')) (\<lambda>zones.
       surface_loop flt (zones, []) (get_list parsed_idf ''BUILDINGSURFACE:DETAILED''))"

subsection \<open>The extraction on a store of mutable objects\<close>

text \<open>
  Lists and dictionaries are mutable objects, reached through references; to see what
  \<^verbatim>\<open>extract_zones\<close> writes to, the function is modelled a second time on an explicit store.
  The store is the list of the objects allocated so far, an address is a position in it,
  and a new object goes to the end. Strings, numbers and tuples are immutable values.
  The objects of an ObjectMapping are a dictionary from keys to references to lists, these
  lists hold references to records, and a record is a list of strings. Where an operation
  meets an object or a value of another type than an ObjectMapping provides, the model
  raises \<^verbatim>\<open>TypeError\<close>.
\<close>

type_synonym addr = nat

datatype 'f val = Str string | Num 'f | Tuple "'f val list" | Ref addr

datatype 'f obj = PyList "'f val list" | PyDict "(string \<times> 'f val) list"

type_synonym 'f store = "'f obj list"

text \<open>A statement runs on the store; an exception leaves the store as it is at that point.\<close>

type_synonym ('f, 'a) prog = "'f store \<Rightarrow> (error + 'a) \<times> 'f store"

definition return_h :: "'a \<Rightarrow> ('f, 'a) prog" where
  "return_h x h = (Inr x, h)"

definition lift_h :: "error + 'a \<Rightarrow> ('f, 'a) prog" where
  "lift_h r h = (r, h)"

definition bind_h :: "('f, 'a) prog \<Rightarrow> ('a \<Rightarrow> ('f, 'b) prog) \<Rightarrow> ('f, 'b) prog" where
  "bind_h m f h = (case m h of (Inl e, h') \<Rightarrow> (Inl e, h') | (Inr x, h') \<Rightarrow> f x h')"

definition alloc :: "'f obj \<Rightarrow> ('f, 'f val) prog" where
  "alloc ob h = (Inr (Ref (length h)), h @ [ob])"

definition obj_at :: "'f val \<Rightarrow> ('f, 'f obj) prog" where
  "obj_at v h =
     (case v of
        Ref a \<Rightarrow> if a < length h then (Inr (h ! a), h) else (Inl TypeError, h)
      | _ \<Rightarrow> (Inl TypeError, h))"

definition list_of :: "'f val \<Rightarrow> ('f, 'f val list) prog" where
  "list_of v =
     bind_h (obj_at v) (\<lambda>ob. case ob of PyList xs \<Rightarrow> return_h xs | PyDict kvs \<Rightarrow> lift_h (Inl TypeError))"

definition dict_of :: "'f val \<Rightarrow> ('f, (string \<times> 'f val) list) prog" where
  "dict_of v =
     bind_h (obj_at v) (\<lambda>ob. case ob of PyDict kvs \<Rightarrow> return_h kvs | PyList xs \<Rightarrow> lift_h (Inl TypeError))"

definition put :: "'f val \<Rightarrow> 'f obj \<Rightarrow> ('f, unit) prog" where
  "put v ob h =
     (case v of
        Ref a \<Rightarrow> if a < length h then (Inr (), h[a := ob]) else (Inl TypeError, h)
      | _ \<Rightarrow> (Inl TypeError, h))"

definition str_of :: "'f val \<Rightarrow> error + string" where
  "str_of v = (case v of Str s \<Rightarrow> Inr s | _ \<Rightarrow> Inl TypeError)"

definition float_h :: "(string \<Rightarrow> 'f option) \<Rightarrow> 'f val \<Rightarrow> error + 'f" where
  "float_h flt v = bind_err (str_of v) (py_float flt)"

definition int_h :: "'f val \<Rightarrow> error + int" where
  "int_h v = bind_err (str_of v) py_int"

definition lookup :: "(string \<times> 'f val) list \<Rightarrow> string \<Rightarrow> error + 'f val" where  \<comment> \<open>\<^verbatim>\<open>d[key]\<close>\<close>
  "lookup kvs key = (case map_of kvs key of None \<Rightarrow> Inl KeyError | Some v \<Rightarrow> Inr v)"

definition list_append :: "'f val \<Rightarrow> 'f val \<Rightarrow> ('f, unit) prog" where  \<comment> \<open>\<^verbatim>\<open>l.append(x)\<close>\<close>
  "list_append l x = bind_h (list_of l) (\<lambda>xs. put l (PyList (xs @ [x])))"

definition dict_set :: "'f val \<Rightarrow> 'f val \<Rightarrow> 'f val \<Rightarrow> ('f, unit) prog" where  \<comment> \<open>\<^verbatim>\<open>d[key] = v\<close>\<close>
  "dict_set d key v =
     bind_h (lift_h (str_of key)) (\<lambda>k.
     bind_h (dict_of d) (\<lambda>kvs. put d (PyDict (AList.update k v kvs))))"

definition dict_get :: "'f val \<Rightarrow> string \<Rightarrow> ('f, 'f val) prog" where  \<comment> \<open>\<^verbatim>\<open>d.get(key, [])\<close>\<close>
  "dict_get d key =
     bind_h (dict_of d) (\<lambda>kvs.
     bind_h (alloc (PyList [])) (\<lambda>dflt.
       return_h (case map_of kvs key of None \<Rightarrow> dflt | Some v \<Rightarrow> v)))"

definition point_h :: "'f \<Rightarrow> 'f \<Rightarrow> 'f \<Rightarrow> 'f val" where
  "point_h x y z = Tuple [Num x, Num y, Num z]"

definition zone_body_h :: "(string \<Rightarrow> 'f option) \<Rightarrow> 'f val \<Rightarrow> 'f val \<Rightarrow> ('f, unit) prog" where
  "zone_body_h flt zones zone =
     bind_h (list_of zone) (\<lambda>items.
     bind_h (lift_h (getitem items 1)) (\<lambda>zone_name.
     bind_h (lift_h (bind_err (getitem items 3) (float_h flt))) (\<lambda>x.
     bind_h (lift_h (bind_err (getitem items 4) (float_h flt))) (\<lambda>y.
     bind_h (lift_h (bind_err (getitem items 5) (float_h flt))) (\<lambda>z.
     bind_h (alloc (PyList [])) (\<lambda>surfs.
     bind_h (alloc (PyDict [(''origin'', point_h x y z), (''surfaces'', surfs)])) (\<lambda>entry.
       dict_set zones zone_name entry)))))))"

text \<open>
  A \<^verbatim>\<open>for\<close> loop over a list object runs over the items the list has when the loop
  starts: no statement of a loop body writes to the list the loop runs over.
\<close>

fun zone_loop_h :: "(string \<Rightarrow> 'f option) \<Rightarrow> 'f val \<Rightarrow> 'f val list \<Rightarrow> ('f, unit) prog" where
  "zone_loop_h flt zones [] = return_h ()"
| "zone_loop_h flt zones (zone # rest) =
     bind_h (zone_body_h flt zones zone) (\<lambda>_. zone_loop_h flt zones rest)"

fun vertex_loop_h ::
  "(string \<Rightarrow> 'f option) \<Rightarrow> 'f val list \<Rightarrow> nat \<Rightarrow> nat list \<Rightarrow> 'f val \<Rightarrow> ('f, unit) prog"
where
  "vertex_loop_h flt items vertices_start_index [] vertices = return_h ()"
| "vertex_loop_h flt items vertices_start_index (i # rest) vertices =
     bind_h (lift_h (bind_err (getitem items (vertices_start_index + i * 3)) (float_h flt))) (\<lambda>x.
     bind_h (lift_h (bind_err (getitem items (vertices_start_index + i * 3 + 1)) (float_h flt))) (\<lambda>y.
     bind_h (lift_h (bind_err (getitem items (vertices_start_index + i * 3 + 2)) (float_h flt))) (\<lambda>z.
     bind_h (list_append vertices (point_h x y z)) (\<lambda>_.
       vertex_loop_h flt items vertices_start_index rest vertices))))"

text \<open>\<^verbatim>\<open>zones[zone_name]["surfaces"].append(vertices)\<close>\<close>

definition append_surface_h :: "'f val \<Rightarrow> string \<Rightarrow> 'f val \<Rightarrow> ('f, unit) prog" where
  "append_surface_h zones zone_name vertices =
     bind_h (dict_of zones) (\<lambda>kvs.
     bind_h (lift_h (lookup kvs zone_name)) (\<lambda>entry.
     bind_h (dict_of entry) (\<lambda>items.
     bind_h (lift_h (lookup items ''surfaces'')) (\<lambda>surfs.
       list_append surfs vertices))))"

definition surface_try_h ::
  "(string \<Rightarrow> 'f option) \<Rightarrow> 'f val \<Rightarrow> string \<Rightarrow> 'f val list \<Rightarrow> ('f, unit) prog"
where
  "surface_try_h flt zones zone_name items =
     bind_h (lift_h (index items (Str ''4''))) (\<lambda>num_vertices_index.
     bind_h (lift_h (bind_err (getitem items num_vertices_index) int_h)) (\<lambda>num_vertices.
     bind_h (alloc (PyList [])) (\<lambda>vertices.
     bind_h (vertex_loop_h flt items (num_vertices_index + 1) [0 ..< nat num_vertices] vertices) (\<lambda>_.
       append_surface_h zones zone_name vertices))))"

text \<open>\<^verbatim>\<open>try: ... except ValueError: print(...); continue\<close>; printing does not touch the store.\<close>

definition except_ValueError :: "('f, unit) prog \<Rightarrow> ('f, unit) prog" where
  "except_ValueError m h =
     (case m h of
        (Inl e, h') \<Rightarrow> if e = ValueError then (Inr (), h') else (Inl e, h')
      | (Inr u, h') \<Rightarrow> (Inr u, h'))"

definition surface_body_h :: "(string \<Rightarrow> 'f option) \<Rightarrow> 'f val \<Rightarrow> 'f val \<Rightarrow> ('f, unit) prog" where
  "surface_body_h flt zones surface =
     bind_h (list_of surface) (\<lambda>items.
     bind_h (lift_h (bind_err (getitem items 4) str_of)) (\<lambda>zone_name.
     bind_h (dict_of zones) (\<lambda>kvs.
       if zone_name \<in> set (map fst kvs)
       then except_ValueError (surface_try_h flt zones zone_name items)
       else return_h ())))"

fun surface_loop_h :: "(string \<Rightarrow> 'f option) \<Rightarrow> 'f val \<Rightarrow> 'f val list \<Rightarrow> ('f, unit) prog" where
  "surface_loop_h flt zones [] = return_h ()"
| "surface_loop_h flt zones (surface # rest) =
     bind_h (surface_body_h flt zones surface) (\<lambda>_. surface_loop_h flt zones rest)"

definition extract_zones_h :: "(string \<Rightarrow> 'f option) \<Rightarrow> 'f val \<Rightarrow> ('f, 'f val) prog" where
  "extract_zones_h flt parsed_idf =
     bind_h (alloc (PyDict [])) (\<lambda>zones.
     bind_h (dict_get parsed_idf ''ZONE'') (\<lambda>zone_list.
     bind_h (list_of zone_list) (\<lambda>zone_recs.
     bind_h (zone_loop_h flt zones zone_recs) (\<lambda>_.
     bind_h (dict_get parsed_idf ''BUILDINGSURFACE:DETAILED'') (\<lambda>surface_list.
     bind_h (list_of surface_list) (\<lambda>surface_recs.
     bind_h (surface_loop_h flt zones surface_recs) (\<lambda>_.
       return_h zones)))))))"

text \<open>
  The invariant of the two loops, for the objects that existed before the call (the
  first \<open>n\<close> of the store) and the dictionary \<^verbatim>\<open>zones\<close> at address \<open>zd\<close>: the
  dictionary was allocated by the call, and every value in it refers to a dictionary
  allocated after it, whose entry \<^verbatim>\<open>surfaces\<close> refers to a list allocated by the call.
\<close>

definition fresh_entry :: "nat \<Rightarrow> addr \<Rightarrow> 'f store \<Rightarrow> 'f val \<Rightarrow> bool" where
  "fresh_entry n zd h v \<longleftrightarrow>
     (\<exists>za e sa l.
        v = Ref za \<and> zd < za \<and> za < length h \<and> h ! za = PyDict e \<and>
        map_of e ''surfaces'' = Some (Ref sa) \<and> n \<le> sa \<and> sa < length h \<and>
        h ! sa = PyList l)"

definition fresh_zones :: "nat \<Rightarrow> addr \<Rightarrow> 'f store \<Rightarrow> bool" where
  "fresh_zones n zd h \<longleftrightarrow>
     n \<le> zd \<and> zd < length h \<and>
     (\<exists>kvs. h ! zd = PyDict kvs \<and> (\<forall>v\<in>snd ` set kvs. fresh_entry n zd h v))"

text \<open>
  A statement keeps the old objects when, started in a store with the invariant, it ends
  (normally or with an exception) in a store with the invariant that has the same first
  \<open>n\<close> objects; \<open>Q\<close> holds for the value it returns.
\<close>

definition keeps :: "nat \<Rightarrow> addr \<Rightarrow> ('f, 'a) prog \<Rightarrow> ('a \<Rightarrow> bool) \<Rightarrow> bool" where
  "keeps n zd m Q \<longleftrightarrow>
     (\<forall>h r h'. fresh_zones n zd h \<longrightarrow> m h = (r, h') \<longrightarrow>
        fresh_zones n zd h' \<and> length h \<le> length h' \<and> take n h' = take n h \<and>
        (\<forall>x. r = Inr x \<longrightarrow> Q x))"

section \<open>Properties\<close>

subsection \<open>The tokenizer never reaches its error rule\<close>

lemma some_rule_matches:
  assumes "s \<noteq> []"
  shows "m_COMMENT s \<noteq> None \<or> m_newline s \<noteq> None \<or> m_VALUE s \<noteq> None
         \<or> m_COMMA s \<noteq> None \<or> m_SEMICOLON s \<noteq> None"
proof -
  from assms obtain c r where s: "s = c # r" by (cases s) auto
  show ?thesis
  proof (cases "value_char c")
    case True
    then show ?thesis by (simp add: s m_VALUE_def)
  next
    case False
    then consider "c = CHR ''!''" | "c = CHR '',''" | "c = CHR '';''" | "c = NL"
      by (auto simp: value_char_def)
    then show ?thesis
    proof cases
      case 1 then show ?thesis by (simp add: s m_COMMENT_def blank_or_eol_def)
    next
      case 2 then show ?thesis by (simp add: s m_COMMA_def m_separator_def blank_def)
    next
      case 3 then show ?thesis by (simp add: s m_SEMICOLON_def m_separator_def blank_def)
    next
      case 4 then show ?thesis by (cases r) (simp_all add: s m_newline_def blank_def)
    qed
  qed
qed

lemma lex_tokens_Eof: "\<exists>n. snd (lex_tokens s lno) = Eof n"
proof (induction s lno rule: lex_tokens.induct)
  case (1 s lno)
  show ?case
  proof (cases "s = []")
    case True
    then show ?thesis by (simp add: lex_tokens.simps)
  next
    case False
    from some_rule_matches [OF False] 1 False show ?thesis
      by (subst lex_tokens.simps) (auto split: option.splits prod.splits)
  qed
qed

subsection \<open>Error handling of the extraction\<close>

text \<open>
  C1. The claim: \<^verbatim>\<open>extract_zones\<close> never fails as a whole; a \<^verbatim>\<open>ZONE\<close> record that
  does not decode (an origin field that is not a number, or a record too short for the
  name and origin fields) is skipped, and every other zone and surface is still extracted.
  The code: the first loop has no \<^verbatim>\<open>try\<close>, unlike the second one. With the records
  \<^verbatim>\<open>Z0\<close> (malformed) and \<^verbatim>\<open>Z1\<close> (well formed) under \<^verbatim>\<open>ZONE\<close>, the
  \<^verbatim>\<open>ValueError\<close> of \<^verbatim>\<open>float('x')\<close>, or the \<^verbatim>\<open>IndexError\<close> of \<^verbatim>\<open>zone[3]\<close>,
  leaves \<^verbatim>\<open>extract_zones\<close>, and no zone is returned.
\<close>

theorem zone_failure_aborts_extraction:
  "extract_zones dec_float
     [(''ZONE'', [[''ZONE'', ''Z0'', '''', ''x'', ''0'', ''0''],
                  [''ZONE'', ''Z1'', '''', ''1.0'', ''2.0'', ''3.0'']])] = Inl ValueError
   \<and> extract_zones dec_float
     [(''ZONE'', [[''ZONE'', ''Z0''],
                  [''ZONE'', ''Z1'', '''', ''1.0'', ''2.0'', ''3.0'']])] = Inl IndexError"
  by code_simp

text \<open>
  C2. The claim: for a surface of a known zone, every decoding failure (a vertex field that
  is not a number, no count field, fewer than \<open>3 \<times> N\<close> fields after the count field) is
  confined to that surface, which is skipped while the loop goes on.
  The code: the handler catches \<^verbatim>\<open>ValueError\<close> only. Surface \<^verbatim>\<open>S1\<close> below has the
  count field \<^verbatim>\<open>4\<close> and three fields after it; reading the fourth one raises
  \<^verbatim>\<open>IndexError\<close>, which leaves \<^verbatim>\<open>extract_zones\<close>: the well-formed surface \<^verbatim>\<open>S2\<close>
  is never reached and no zone is returned.
\<close>

theorem short_surface_aborts_extraction:
  "extract_zones dec_float
     [(''ZONE'', [[''ZONE'', ''Z1'', '''', ''1.0'', ''2.0'', ''3.0'']]),
      (''BUILDINGSURFACE:DETAILED'',
         [[''BUILDINGSURFACE:DETAILED'', ''S1'', ''Wall'', ''C'', ''Z1'', ''4'', ''0'', ''0'', ''0''],
          [''BUILDINGSURFACE:DETAILED'', ''S2'', ''Wall'', ''C'', ''Z1'', ''4'',
           ''0'', ''0'', ''0'', ''1'', ''0'', ''0'', ''1'', ''1'', ''0'', ''0'', ''1'', ''0'']])]
   = Inl IndexError"
  by code_simp

subsection \<open>Line counting\<close>

text \<open>
  C5. The claim: the line counter is one plus the number of line feeds consumed so far; a
  newline match advances it by the number of line feeds in the match, a comment match by
  the line feeds inside it, and so a \<^verbatim>\<open>ParseError\<close> names the line of the offending token.
  The code: \<^verbatim>\<open>t_newline\<close> adds the length of its whole match, carriage returns and
  blanks included, and \<^verbatim>\<open>t_COMMENT\<close> adds to the line field of the token it discards,
  not to the lexer's counter. In the first input below the semicolon is on line 2 and
  the counter says 3; in the second one the semicolon is on line 3, after a comment
  match that starts with a line feed, and the counter says 2.
\<close>

theorem line_counter_miscounts:
  "lex_tokens ([CR, NL] @ '';'') 1 = ([\<lparr>kind = SEMICOLON, text_of = '';'', lineno = 3\<rparr>], Eof 3)
   \<and> parse ([CR, NL] @ '';'') = Inl (ParseError 3)
   \<and> lex_tokens ([NL] @ ''! c'' @ [NL] @ '';'') 1
       = ([\<lparr>kind = SEMICOLON, text_of = '';'', lineno = 2\<rparr>], Eof 2)
   \<and> parse ([NL] @ ''! c'' @ [NL] @ '';'') = Inl (ParseError 2)"
  by code_simp

subsection \<open>Grouping by object name\<close>

lemma get_list_setdefault_append:
  "get_list (setdefault_append k obj m) k' = (if k' = k then get_list m k @ [obj] else get_list m k')"
  by (auto simp: get_list_def setdefault_append_def AList.update_conv' map_add_def
      split: option.splits)

lemma keys_setdefault_append:
  "fst ` set (setdefault_append k obj m) = insert k (fst ` set m)"
  by (auto simp: setdefault_append_def AList.dom_update split: option.splits)

lemma distinct_setdefault_append:
  "distinct (map fst m) \<Longrightarrow> distinct (map fst (setdefault_append k obj m))"
  by (auto simp: setdefault_append_def AList.distinct_update map_of_eq_None_iff
      split: option.splits)

lemma getitem_0: "obj \<noteq> [] \<Longrightarrow> getitem obj 0 = Inr (hd obj)"
  by (cases obj) (simp_all add: getitem_def)

lemma group_objects_spec:
  assumes "\<forall>obj\<in>set objs. obj \<noteq> []"
  shows "\<exists>m'. group_objects m objs = Inr m'
           \<and> (distinct (map fst m) \<longrightarrow> distinct (map fst m'))
           \<and> fst ` set m' = fst ` set m \<union> (\<lambda>obj. upper (hd obj)) ` set objs
           \<and> (\<forall>k. get_list m' k = get_list m k @ filter (\<lambda>obj. upper (hd obj) = k) objs)"
  using assms
proof (induction objs arbitrary: m)
  case Nil
  then show ?case by simp
next
  case (Cons obj objs)
  let ?m = "setdefault_append (upper (hd obj)) obj m"
  from Cons.prems have ne: "obj \<noteq> []" and rest: "\<forall>obj\<in>set objs. obj \<noteq> []" by simp_all
  from Cons.IH [OF rest, of ?m] obtain m' where
    g: "group_objects ?m objs = Inr m'" and
    d: "distinct (map fst ?m) \<longrightarrow> distinct (map fst m')" and
    k: "fst ` set m' = fst ` set ?m \<union> (\<lambda>obj. upper (hd obj)) ` set objs" and
    l: "\<forall>k. get_list m' k = get_list ?m k @ filter (\<lambda>obj. upper (hd obj) = k) objs"
    by blast
  have "group_objects m (obj # objs) = Inr m'"
    using g ne by (simp add: getitem_0)
  moreover have "distinct (map fst m) \<longrightarrow> distinct (map fst m')"
    using d distinct_setdefault_append by blast
  moreover have "fst ` set m' = fst ` set m \<union> (\<lambda>obj. upper (hd obj)) ` set (obj # objs)"
    using k by (simp add: keys_setdefault_append)
  moreover have "\<forall>k. get_list m' k = get_list m k @ filter (\<lambda>obj. upper (hd obj) = k) (obj # objs)"
    using l by (simp add: get_list_setdefault_append)
  ultimately show ?case by blast
qed

lemma p_idfobject_nonempty: "p_idfobject e ts = Inr (obj, r) \<Longrightarrow> obj \<noteq> []"
  by (auto dest!: p_idfobject_Inr)

lemma p_idfobjectlist_nonempty:
  "p_idfobjectlist e ts = Inr objs \<Longrightarrow> \<forall>obj\<in>set objs. obj \<noteq> []"
proof (induction e ts arbitrary: objs rule: p_idfobjectlist.induct)
  case (1 e ts)
  from "1.prems" obtain obj r where
    o: "p_idfobject e ts = Inr (obj, r)" and
    c: "(if r = [] then (case e of Eof lno \<Rightarrow> Inr [obj] | Illegal c lno \<Rightarrow> Inl (LexError c lno))
         else bind_err (p_idfobjectlist e r) (\<lambda>objs. Inr (obj # objs))) = Inr objs"
    by (subst (asm) p_idfobjectlist.simps) (auto simp: bind_err_Inr_iff)
  have ne: "obj \<noteq> []" using o by (rule p_idfobject_nonempty)
  show ?case
  proof (cases "r = []")
    case True
    with c ne show ?thesis by (auto split: lex_end.splits)
  next
    case False
    with c obtain objs' where
      r: "p_idfobjectlist e r = Inr objs'" and objs: "objs = obj # objs'"
      by (auto simp: bind_err_Inr_iff)
    from "1.IH" [OF o refl False r] ne objs show ?thesis by simp
  qed
qed

text \<open>
  C7. For every input that \<^verbatim>\<open>parse\<close> accepts, with \<open>objs\<close> the objects in input
  order: the keys of the mapping are pairwise distinct; every object has a first field,
  whose uppercase is a key; and the list under a key is the list of the objects whose
  uppercased first field is that key, unchanged and in input order.
\<close>

theorem parse_groups_by_upper_name:
  assumes "parse input = Inr parsed"
  shows "\<exists>objs. idfobjectlist input = Inr objs
           \<and> distinct (map fst parsed)
           \<and> (\<forall>obj\<in>set objs. obj \<noteq> [] \<and> upper (hd obj) \<in> fst ` set parsed)
           \<and> (\<forall>(key, recs)\<in>set parsed.
                 recs \<noteq> [] \<and> recs = filter (\<lambda>obj. upper (hd obj) = key) objs)"
proof -
  from assms obtain objs where
    objs: "idfobjectlist input = Inr objs" and g: "group_objects [] objs = Inr parsed"
    by (auto simp: parse_def p_idffile_def bind_err_Inr_iff)
  from objs have ne: "\<forall>obj\<in>set objs. obj \<noteq> []"
    by (auto simp: idfobjectlist_def split: prod.splits dest: p_idfobjectlist_nonempty)
  from group_objects_spec [OF ne, of "[]"] g have
    d: "distinct (map fst parsed)" and
    k: "fst ` set parsed = (\<lambda>obj. upper (hd obj)) ` set objs" and
    l: "\<forall>k. get_list parsed k = filter (\<lambda>obj. upper (hd obj) = k) objs"
    by (auto simp: get_list_def)
  have "recs \<noteq> [] \<and> recs = filter (\<lambda>obj. upper (hd obj) = key) objs"
    if "(key, recs) \<in> set parsed" for key recs
  proof -
    from that d have "map_of parsed key = Some recs" by simp
    then have "get_list parsed key = recs" by (simp add: get_list_def)
    with l have r: "recs = filter (\<lambda>obj. upper (hd obj) = key) objs" by simp
    from that have "key \<in> fst ` set parsed" by force
    with k obtain obj where "obj \<in> set objs" "upper (hd obj) = key" by auto
    then have "obj \<in> set (filter (\<lambda>obj. upper (hd obj) = key) objs)" by simp
    then have "filter (\<lambda>obj. upper (hd obj) = key) objs \<noteq> []" by force
    with r show ?thesis by simp
  qed
  with objs d ne k show ?thesis by blast
qed

theorem parse_groups_by_upper_name_witness:
  "parse ''Zone,a;b;ZONE,c;'' = Inr [(''ZONE'', [[''Zone'', ''a''], [''ZONE'', ''c'']]), (''B'', [[''b'']])]
   \<and> (\<exists>objs. idfobjectlist ''Zone,a;b;ZONE,c;'' = Inr objs
           \<and> distinct (map fst [(''ZONE'', [[''Zone'', ''a''], [''ZONE'', ''c'']]), (''B'', [[''b'']])])
           \<and> (\<forall>obj\<in>set objs. obj \<noteq> [] \<and> upper (hd obj) \<in> fst ` set [(''ZONE'', [[''Zone'', ''a''], [''ZONE'', ''c'']]), (''B'', [[''b'']])])
           \<and> (\<forall>(key, recs)\<in>set [(''ZONE'', [[''Zone'', ''a''], [''ZONE'', ''c'']]), (''B'', [[''b'']])].
                 recs \<noteq> [] \<and> recs = filter (\<lambda>obj. upper (hd obj) = key) objs))"
proof -
  have h: "parse ''Zone,a;b;ZONE,c;'' = Inr [(''ZONE'', [[''Zone'', ''a''], [''ZONE'', ''c'']]), (''B'', [[''b'']])]"
    by code_simp
  show ?thesis
    by (rule conjI [OF h parse_groups_by_upper_name [OF h]])
qed

subsection \<open>Inputs without objects\<close>

text \<open>
  The grammar has no empty production: \<^verbatim>\<open>idfobjectlist\<close> is one object, or one object
  followed by an \<^verbatim>\<open>idfobjectlist\<close>. On the empty string the parser meets the end of
  the input where it needs a \<^verbatim>\<open>VALUE\<close>, and \<^verbatim>\<open>p_error\<close> raises.
\<close>

theorem parse_empty_counterexample: "parse [] = Inl (ParseError 1)"
  by code_simp

text \<open>
  The parser fails with \<^verbatim>\<open>ParseError\<close> only (the tokenizer never raises), an accepted
  input has at least one object, and each object ends with a \<^verbatim>\<open>SEMICOLON\<close> token.
\<close>

lemma p_valuelist_error: "p_valuelist (Eof n) ts = Inl err \<Longrightarrow> \<exists>lno. err = ParseError lno"
proof (induction "Eof n" ts arbitrary: err rule: p_valuelist.induct)
  case 1
  then show ?case by auto
next
  case (2 t)
  then show ?case by (auto split: if_splits)
next
  case (3 t s ts)
  show ?case
  proof (cases "kind t = VALUE")
    case False
    with "3.prems" show ?thesis by auto
  next
    case True
    show ?thesis
    proof (cases "kind s")
      case VALUE
      with "3.prems" True show ?thesis by auto
    next
      case SEMICOLON
      with "3.prems" True show ?thesis by auto
    next
      case COMMA
      with "3.prems" True obtain err' where "p_valuelist (Eof n) ts = Inl err'" "err = err'"
        by (cases "p_valuelist (Eof n) ts") auto
      with "3.hyps" [OF _ COMMA] True show ?thesis by auto
    qed
  qed
qed

lemma p_valuelist_semicolon:
  "p_valuelist e ts = Inr (vs, r) \<Longrightarrow> SEMICOLON \<in> kind ` set ts"
proof (induction e ts arbitrary: vs r rule: p_valuelist.induct)
  case (1 e)
  then show ?case by simp
next
  case (2 e t)
  then show ?case by (simp split: if_splits)
next
  case (3 e t s ts)
  from "3.prems" have v: "kind t = VALUE" by (auto split: if_splits)
  show ?case
  proof (cases "kind s")
    case VALUE
    with "3.prems" v show ?thesis by simp
  next
    case SEMICOLON
    then show ?thesis by force
  next
    case COMMA
    with "3.prems" v obtain vs' r' where "p_valuelist e ts = Inr (vs', r')"
      by (auto simp: bind_err_Inr_iff)
    from "3.IH" [OF _ COMMA this] v show ?thesis by auto
  qed
qed

lemma p_idfobject_semicolon:
  assumes "p_idfobject e ts = Inr (obj, r)"
  shows "SEMICOLON \<in> kind ` set ts"
proof -
  from p_idfobject_Inr [OF assms] obtain t s ts' where
    ts: "ts = t # s # ts'" and
    c: "kind s = SEMICOLON \<or> (\<exists>vs u. p_valuelist e ts' = Inr (vs, u # r))"
    by blast
  from c show ?thesis
  proof
    assume "kind s = SEMICOLON"
    with ts show ?thesis by force
  next
    assume "\<exists>vs u. p_valuelist e ts' = Inr (vs, u # r)"
    then obtain vs u where "p_valuelist e ts' = Inr (vs, u # r)" by blast
    from p_valuelist_semicolon [OF this] ts show ?thesis by auto
  qed
qed

lemma p_idfobject_error:
  assumes "p_idfobject (Eof n) ts = Inl err"
  shows "\<exists>lno. err = ParseError lno"
proof (cases "(Eof n, ts)" rule: p_idfobject.cases)
  case (1 e)
  with assms show ?thesis by auto
next
  case (2 e t)
  with assms show ?thesis by (auto split: if_splits)
next
  case (3 e t s ts')
  show ?thesis
  proof (cases "kind t = VALUE")
    case False
    with assms 3 show ?thesis by auto
  next
    case True
    show ?thesis
    proof (cases "kind s")
      case VALUE
      with assms 3 True show ?thesis by auto
    next
      case SEMICOLON
      with assms 3 True show ?thesis by auto
    next
      case COMMA
      show ?thesis
      proof (cases "p_valuelist (Eof n) ts'")
        case (Inl err')
        with assms 3 True COMMA have "err = err'" by simp
        with p_valuelist_error [OF Inl] show ?thesis by auto
      next
        case (Inr res)
        obtain vs r where res: "res = (vs, r)" by (cases res)
        from assms 3 True COMMA Inr res show ?thesis
          by (cases r) (auto split: if_splits)
      qed
    qed
  qed
qed

lemma p_idfobjectlist_error:
  "p_idfobjectlist (Eof n) ts = Inl err \<Longrightarrow> \<exists>lno. err = ParseError lno"
proof (induction "Eof n" ts arbitrary: err rule: p_idfobjectlist.induct)
  case (1 ts)
  show ?case
  proof (cases "p_idfobject (Eof n) ts")
    case (Inl err')
    with "1.prems" have "err = err'" by (subst (asm) p_idfobjectlist.simps) simp
    with p_idfobject_error [OF Inl] show ?thesis by simp
  next
    case (Inr res)
    obtain obj r where res: "res = (obj, r)" by (cases res)
    show ?thesis
    proof (cases "r = []")
      case True
      with "1.prems" Inr res show ?thesis by (subst (asm) p_idfobjectlist.simps) simp
    next
      case False
      with "1.prems" Inr res have "p_idfobjectlist (Eof n) r = Inl err"
        by (subst (asm) p_idfobjectlist.simps) (cases "p_idfobjectlist (Eof n) r", auto)
      from "1.hyps" [OF Inr [unfolded res] refl False this] show ?thesis .
    qed
  qed
qed

lemma p_idfobjectlist_Inr:
  assumes "p_idfobjectlist e ts = Inr objs"
  shows "objs \<noteq> [] \<and> SEMICOLON \<in> kind ` set ts"
proof -
  from assms obtain obj r where
    o: "p_idfobject e ts = Inr (obj, r)" and
    c: "(if r = [] then (case e of Eof lno \<Rightarrow> Inr [obj] | Illegal c lno \<Rightarrow> Inl (LexError c lno))
         else bind_err (p_idfobjectlist e r) (\<lambda>objs. Inr (obj # objs))) = Inr objs"
    by (subst (asm) p_idfobjectlist.simps) (auto simp: bind_err_Inr_iff)
  from c have "objs \<noteq> []"
    by (cases "r = []") (auto simp: bind_err_Inr_iff split: lex_end.splits)
  with p_idfobject_semicolon [OF o] show ?thesis by simp
qed

lemma idfobjectlist_cases:
  obtains (error) lno where "idfobjectlist input = Inl (ParseError lno)"
  | (objects) objs where "idfobjectlist input = Inr objs" "objs \<noteq> []"
      "\<forall>obj\<in>set objs. obj \<noteq> []" "SEMICOLON \<in> kind ` set (fst (lex_tokens input 1))"
proof -
  obtain ts e where l: "lex_tokens input 1 = (ts, e)" by (cases "lex_tokens input 1")
  from lex_tokens_Eof [of input 1] l obtain n where e: "e = Eof n" by auto
  show thesis
  proof (cases "p_idfobjectlist e ts")
    case (Inl err)
    with p_idfobjectlist_error [of n ts err] e obtain lno where "err = ParseError lno" by auto
    with Inl l have "idfobjectlist input = Inl (ParseError lno)" by (simp add: idfobjectlist_def)
    then show ?thesis by (rule error)
  next
    case (Inr objs)
    with l have "idfobjectlist input = Inr objs" by (simp add: idfobjectlist_def)
    moreover from p_idfobjectlist_Inr [OF Inr] have "objs \<noteq> []" by simp
    moreover from p_idfobjectlist_nonempty [OF Inr] have "\<forall>obj\<in>set objs. obj \<noteq> []" .
    moreover from p_idfobjectlist_Inr [OF Inr] l
    have "SEMICOLON \<in> kind ` set (fst (lex_tokens input 1))" by simp
    ultimately show ?thesis by (rule objects)
  qed
qed

text \<open>
  C6, as amended. The claim: the grammar accepts zero or more objects, so \<^verbatim>\<open>parse\<close>
  returns an empty mapping for an input without object productions. The code: the grammar
  accepts one or more objects. \<^verbatim>\<open>parse\<close> never returns an empty mapping, and for every
  input without an object production, that is without a \<^verbatim>\<open>SEMICOLON\<close> token to end
  one (the empty string, text made of whitespace and comments), \<^verbatim>\<open>parse\<close> fails with a
  \<^verbatim>\<open>ParseError\<close>.
\<close>

theorem parse_needs_an_object:
  "parse input \<noteq> Inr []
   \<and> (SEMICOLON \<notin> kind ` set (fst (lex_tokens input 1)) \<longrightarrow>
        (\<exists>lno. parse input = Inl (ParseError lno)))"
proof (cases input rule: idfobjectlist_cases)
  case (error lno)
  then have "parse input = Inl (ParseError lno)" by (simp add: parse_def)
  then show ?thesis by simp
next
  case (objects objs)
  from group_objects_spec [OF objects(3), of "[]"] obtain m where
    m: "group_objects [] objs = Inr m" and
    keys: "fst ` set m = (\<lambda>obj. upper (hd obj)) ` set objs"
    by auto
  from objects(2) keys have "m \<noteq> []" by (cases objs) auto
  moreover from objects(1) m have "parse input = Inr m" by (simp add: parse_def p_idffile_def)
  ultimately show ?thesis using objects(4) by simp
qed

theorem parse_needs_an_object_witness:
  "SEMICOLON \<notin> kind ` set (fst (lex_tokens (''  '' @ [NL] @ '' ! a comment'' @ [NL, TAB]) 1))
   \<and> (\<exists>lno. parse (''  '' @ [NL] @ '' ! a comment'' @ [NL, TAB]) = Inl (ParseError lno))
   \<and> SEMICOLON \<notin> kind ` set (fst (lex_tokens ''  '' 1))
   \<and> (\<exists>lno. parse ''  '' = Inl (ParseError lno))"
proof -
  let ?a = "''  '' @ [NL] @ '' ! a comment'' @ [NL, TAB]"
  have a: "SEMICOLON \<notin> kind ` set (fst (lex_tokens ?a 1))" by code_simp
  have b: "SEMICOLON \<notin> kind ` set (fst (lex_tokens ''  '' 1))" by code_simp
  from parse_needs_an_object [of ?a] a
  have pa: "\<exists>lno. parse ?a = Inl (ParseError lno)" by blast
  from parse_needs_an_object [of "''  ''"] b
  have pb: "\<exists>lno. parse ''  '' = Inl (ParseError lno)" by blast
  from a pa b pb show ?thesis by blast
qed

text \<open>Inputs without objects, evaluated.\<close>

lemma whitespace_and_comment_examples:
  "parse (''  '' @ [NL] @ '' ! a comment'' @ [NL, TAB]) = Inl (ParseError 2)"
  "parse ''  '' = Inl (ParseError 1)"
  "parse [NL] = Inl (ParseError 2)"
  "parse ''! only a comment; with a semicolon'' = Inl (ParseError 1)"
  by code_simp+

text \<open>
  A \<^verbatim>\<open>SEMICOLON\<close> token is matched at a semicolon of the text, so a text without that
  character (blank text, for one) has no object production.
\<close>

lemma m_separator_char: "m_separator x s = Some n \<Longrightarrow> x \<in> set s"
proof -
  assume m: "m_separator x s = Some n"
  then obtain r' where "dropWhile blank s = x # r'"
    by (cases "dropWhile blank s") (auto simp: m_separator_def Let_def split: if_splits)
  then have "x \<in> set (dropWhile blank s)" by simp
  then show ?thesis by (rule set_dropWhileD)
qed

lemma semicolon_token_needs_char:
  "SEMICOLON \<in> kind ` set (fst (lex_tokens s lno)) \<Longrightarrow> CHR '';'' \<in> set s"
proof (induction s lno rule: lex_tokens.induct)
  case (1 s lno)
  have sub: "CHR '';'' \<in> set (drop n s) \<Longrightarrow> CHR '';'' \<in> set s" for n
    by (rule in_set_dropD)
  show ?case
  proof (cases "s = []")
    case True
    with "1.prems" show ?thesis by (simp add: lex_tokens.simps)
  next
    case ne: False
    show ?thesis
    proof (cases "m_COMMENT s")
      case (Some n)
      with "1.prems" ne have "SEMICOLON \<in> kind ` set (fst (lex_tokens (drop n s) lno))"
        by (subst (asm) lex_tokens.simps) simp
      with "1.IH" ne Some have "CHR '';'' \<in> set (drop n s)" by blast
      then show ?thesis by (rule sub)
    next
      case c: None
      show ?thesis
      proof (cases "m_newline s")
        case (Some n)
        with "1.prems" ne c have "SEMICOLON \<in> kind ` set (fst (lex_tokens (drop n s) (lno + n)))"
          by (subst (asm) lex_tokens.simps) simp
        with "1.IH" ne c Some have "CHR '';'' \<in> set (drop n s)" by blast
      then show ?thesis by (rule sub)
      next
        case nl: None
        show ?thesis
        proof (cases "m_VALUE s")
          case (Some n)
          with "1.prems" ne c nl have "SEMICOLON \<in> kind ` set (fst (lex_tokens (drop n s) lno))"
            by (subst (asm) lex_tokens.simps) (auto split: prod.splits)
          with "1.IH" ne c nl Some have "CHR '';'' \<in> set (drop n s)" by blast
      then show ?thesis by (rule sub)
        next
          case v: None
          show ?thesis
          proof (cases "m_COMMA s")
            case (Some n)
            with "1.prems" ne c nl v
            have "SEMICOLON \<in> kind ` set (fst (lex_tokens (drop n s) lno))"
              by (subst (asm) lex_tokens.simps) (auto split: prod.splits)
            with "1.IH" ne c nl v Some have "CHR '';'' \<in> set (drop n s)" by blast
      then show ?thesis by (rule sub)
          next
            case cm: None
            show ?thesis
            proof (cases "m_SEMICOLON s")
              case (Some n)
              then show ?thesis by (simp add: m_SEMICOLON_def m_separator_char)
            next
              case None
              with "1.prems" ne c nl v cm show ?thesis
                by (subst (asm) lex_tokens.simps) simp
            qed
          qed
        qed
      qed
    qed
  qed
qed

lemma parse_without_semicolon_char:
  assumes "CHR '';'' \<notin> set input"
  shows "\<exists>lno. parse input = Inl (ParseError lno)"
proof (cases input rule: idfobjectlist_cases)
  case (error lno)
  then show ?thesis by (simp add: parse_def)
next
  case (objects objs)
  from semicolon_token_needs_char [OF objects(4)] assms show ?thesis by simp
qed

subsection \<open>The two loops of the extraction\<close>

lemma getitem_Inr_iff: "getitem xs i = Inr v \<longleftrightarrow> i < length xs \<and> v = xs ! i"
  by (auto simp: getitem_def)

lemma py_float_Inr_iff: "py_float flt s = Inr x \<longleftrightarrow> flt s = Some x"
  by (simp add: py_float_def split: option.splits)

lemma zone_body_Inr_iff:
  "zone_body flt zones zone = Inr zones' \<longleftrightarrow>
     5 < length zone \<and>
     (\<exists>x y z. flt (zone ! 3) = Some x \<and> flt (zone ! 4) = Some y \<and> flt (zone ! 5) = Some z
        \<and> zones' = AList.update (zone ! 1) \<lparr>origin = (x, y, z), surfaces = []\<rparr> zones)"
  by (auto simp: zone_body_def bind_err_Inr_iff getitem_Inr_iff py_float_Inr_iff)

lemma zone_loop_append:
  "zone_loop flt zones (xs @ ys) = bind_err (zone_loop flt zones xs) (\<lambda>zones'. zone_loop flt zones' ys)"
proof (induction xs arbitrary: zones)
  case Nil
  show ?case by simp
next
  case (Cons x xs)
  show ?case by (cases "zone_body flt zones x") (simp_all add: Cons.IH)
qed

lemma distinct_zone_body:
  "zone_body flt zones zone = Inr zones' \<Longrightarrow> distinct (map fst zones) \<Longrightarrow> distinct (map fst zones')"
  by (auto simp: zone_body_Inr_iff AList.distinct_update)

lemma distinct_zone_loop:
  "zone_loop flt zones recs = Inr zones' \<Longrightarrow> distinct (map fst zones) \<Longrightarrow> distinct (map fst zones')"
proof (induction recs arbitrary: zones)
  case Nil
  then show ?case by simp
next
  case (Cons r recs)
  from Cons.prems(1) obtain zs where
    b: "zone_body flt zones r = Inr zs" and l: "zone_loop flt zs recs = Inr zones'"
    by (auto simp: bind_err_Inr_iff)
  from distinct_zone_body [OF b Cons.prems(2)] Cons.IH [OF l] show ?case by blast
qed

lemma zone_loop_other_names:
  "zone_loop flt zones recs = Inr zones' \<Longrightarrow> \<forall>r\<in>set recs. r ! 1 \<noteq> name \<Longrightarrow>
     map_of zones' name = map_of zones name"
proof (induction recs arbitrary: zones)
  case Nil
  then show ?case by simp
next
  case (Cons r recs)
  from Cons.prems(1) obtain zs where
    b: "zone_body flt zones r = Inr zs" and l: "zone_loop flt zs recs = Inr zones'"
    by (auto simp: bind_err_Inr_iff)
  from b Cons.prems(2) have "map_of zs name = map_of zones name"
    by (auto simp: zone_body_Inr_iff AList.update_conv')
  with Cons.IH [OF l] Cons.prems(2) show ?case by simp
qed

lemma set_update_subset: "set (AList.update k v al) \<subseteq> insert (k, v) (set al)"
  by (induction al) auto

lemma zone_loop_no_surfaces:
  "zone_loop flt zones recs = Inr zones' \<Longrightarrow> \<forall>(n, z)\<in>set zones. surfaces z = [] \<Longrightarrow>
     \<forall>(n, z)\<in>set zones'. surfaces z = []"
proof (induction recs arbitrary: zones)
  case Nil
  then show ?case by simp
next
  case (Cons r recs)
  from Cons.prems(1) obtain zs where
    b: "zone_body flt zones r = Inr zs" and l: "zone_loop flt zs recs = Inr zones'"
    by (auto simp: bind_err_Inr_iff)
  from b Cons.prems(2) have "\<forall>(n, z)\<in>set zs. surfaces z = []"
    using set_update_subset by (fastforce simp: zone_body_Inr_iff)
  with Cons.IH [OF l] show ?case by simp
qed

text \<open>Appending a polygon keeps the keys and the origins.\<close>

lemma keys_append_surface: "map fst (append_surface name vertices zones) = map fst zones"
  unfolding append_surface_def by (induction zones) auto

lemma origin_append_surface:
  "map_option origin (map_of (append_surface name vertices zones) k) = map_option origin (map_of zones k)"
  by (simp add: append_surface_def AList.map_of_map_entry split: option.splits)

lemma surface_body_cases:
  assumes "surface_body flt (zones, reported) surface = Inr (zones', reported')"
  shows "4 < length surface \<and>
         ((surface ! 4 \<notin> fst ` set zones \<and> zones' = zones \<and> reported' = reported) \<or>
          (surface ! 4 \<in> fst ` set zones \<and> surface_vertices flt surface = Inl ValueError
             \<and> zones' = zones \<and> reported' = reported @ [surface]) \<or>
          (surface ! 4 \<in> fst ` set zones \<and>
             (\<exists>vertices. surface_vertices flt surface = Inr vertices
                \<and> zones' = append_surface (surface ! 4) vertices zones \<and> reported' = reported)))"
  using assms
  by (auto simp: surface_body_def bind_err_Inr_iff getitem_Inr_iff split: if_splits sum.splits)

lemma surface_loop_append:
  "surface_loop flt st (xs @ ys) = bind_err (surface_loop flt st xs) (\<lambda>st'. surface_loop flt st' ys)"
proof (induction xs arbitrary: st)
  case Nil
  show ?case by simp
next
  case (Cons x xs)
  show ?case by (cases "surface_body flt st x") (simp_all add: Cons.IH)
qed

lemma surface_loop_keeps:
  "surface_loop flt (zones, reported) recs = Inr (zones', reported') \<Longrightarrow>
     map fst zones' = map fst zones
     \<and> (\<forall>k. map_option origin (map_of zones' k) = map_option origin (map_of zones k))
     \<and> set reported' \<subseteq> set reported \<union> set recs"
proof (induction recs arbitrary: zones reported)
  case Nil
  then show ?case by simp
next
  case (Cons r recs)
  from Cons.prems obtain zs rep where
    b: "surface_body flt (zones, reported) r = Inr (zs, rep)" and
    l: "surface_loop flt (zs, rep) recs = Inr (zones', reported')"
    by (auto simp: bind_err_Inr_iff)
  from surface_body_cases [OF b] have
    "map fst zs = map fst zones
     \<and> (\<forall>k. map_option origin (map_of zs k) = map_option origin (map_of zones k))
     \<and> set rep \<subseteq> set reported \<union> {r}"
    by (auto simp: keys_append_surface origin_append_surface)
  with Cons.IH [OF l] show ?case by auto
qed

subsection \<open>Polygons\<close>










subsection \<open>Zones\<close>

text \<open>
  C9. When several \<^verbatim>\<open>ZONE\<close> records have the same name, the output has one entry for
  the name (its keys are pairwise distinct), and the origin of the entry is the one
  decoded from the last of these records; nothing is reported for the earlier ones (the
  reported records are surface records).
\<close>

theorem duplicate_zone_last_wins:
  assumes "extract_zones flt parsed_idf = Inr (zones, reported)"
    and "get_list parsed_idf ''ZONE'' = earlier @ zone # later"
    and "\<forall>other\<in>set later. other ! 1 \<noteq> zone ! 1"
  shows "distinct (map fst zones)
         \<and> (\<exists>x y z zn. flt (zone ! 3) = Some x \<and> flt (zone ! 4) = Some y \<and> flt (zone ! 5) = Some z
               \<and> map_of zones (zone ! 1) = Some zn \<and> origin zn = (x, y, z))
         \<and> set reported \<subseteq> set (get_list parsed_idf ''BUILDINGSURFACE:DETAILED'')"
proof -
  from assms(1) obtain zs where
    z: "zone_loop flt [] (get_list parsed_idf ''ZONE'') = Inr zs" and
    s: "surface_loop flt (zs, []) (get_list parsed_idf ''BUILDINGSURFACE:DETAILED'')
          = Inr (zones, reported)"
    by (auto simp: extract_zones_def bind_err_Inr_iff)
  from surface_loop_keeps [OF s] have
    keys: "map fst zones = map fst zs" and
    orig: "\<And>k. map_option origin (map_of zones k) = map_option origin (map_of zs k)" and
    rep: "set reported \<subseteq> set (get_list parsed_idf ''BUILDINGSURFACE:DETAILED'')"
    by simp_all
  from distinct_zone_loop [OF z] keys have d: "distinct (map fst zones)" by simp
  from z assms(2) obtain zs1 zs2 where
    b: "zone_body flt zs1 zone = Inr zs2" and l: "zone_loop flt zs2 later = Inr zs"
    by (auto simp: zone_loop_append bind_err_Inr_iff)
  from b obtain x y z' where
    f: "flt (zone ! 3) = Some x" "flt (zone ! 4) = Some y" "flt (zone ! 5) = Some z'" and
    zs2: "zs2 = AList.update (zone ! 1) \<lparr>origin = (x, y, z'), surfaces = []\<rparr> zs1"
    by (auto simp: zone_body_Inr_iff)
  from zone_loop_other_names [OF l assms(3)] zs2
  have "map_of zs (zone ! 1) = Some \<lparr>origin = (x, y, z'), surfaces = []\<rparr>"
    by (simp add: AList.update_conv')
  with orig [of "zone ! 1"] obtain zn where
    "map_of zones (zone ! 1) = Some zn" "origin zn = (x, y, z')"
    by (cases "map_of zones (zone ! 1)") auto
  with d f rep show ?thesis by blast
qed

theorem duplicate_zone_last_wins_witness:
  "extract_zones dec_float
     [(''ZONE'', [[''ZONE'', ''Z1'', '''', ''1.0'', ''2.0'', ''3.0''],
                  [''ZONE'', ''Z2'', '''', ''0'', ''0'', ''0''],
                  [''ZONE'', ''Z1'', '''', ''7'', ''8'', ''9'']])]
     = Inr ([(''Z1'', \<lparr>origin = (7, 8, 9), surfaces = []\<rparr>),
             (''Z2'', \<lparr>origin = (0, 0, 0), surfaces = []\<rparr>)], [])
   \<and> (\<exists>x y z zn. dec_float ''7'' = Some x \<and> dec_float ''8'' = Some y \<and> dec_float ''9'' = Some z
         \<and> map_of [(''Z1'', \<lparr>origin = (7, 8, 9), surfaces = []\<rparr>),
                    (''Z2'', \<lparr>origin = (0, 0, 0), surfaces = []\<rparr>)] ''Z1'' = Some zn
         \<and> origin zn = (x, y, z))"
proof -
  let ?m = "[(''ZONE'', [[''ZONE'', ''Z1'', '''', ''1.0'', ''2.0'', ''3.0''],
                  [''ZONE'', ''Z2'', '''', ''0'', ''0'', ''0''],
                  [''ZONE'', ''Z1'', '''', ''7'', ''8'', ''9'']])]"
  let ?zones = "[(''Z1'', \<lparr>origin = (7::rat, 8::rat, 9::rat), surfaces = []\<rparr>),
             (''Z2'', \<lparr>origin = (0, 0, 0), surfaces = []\<rparr>)]"
  have h: "extract_zones dec_float ?m = Inr (?zones, [])"
    by code_simp
  have g: "get_list ?m ''ZONE''
      = [[''ZONE'', ''Z1'', '''', ''1.0'', ''2.0'', ''3.0''], [''ZONE'', ''Z2'', '''', ''0'', ''0'', ''0'']]
        @ [''ZONE'', ''Z1'', '''', ''7'', ''8'', ''9''] # []"
    by (simp add: get_list_def)
  have n: "\<forall>other\<in>set []. other ! 1 \<noteq> [''ZONE'', ''Z1'', '''', ''7'', ''8'', ''9''] ! 1"
    by simp
  from duplicate_zone_last_wins [OF h g n] h show ?thesis
    by simp
qed

lemma get_list_update:
  "get_list (AList.update k v m) k' = (if k' = k then v else get_list m k')"
  by (simp add: get_list_def AList.update_conv')

lemma zone_loop_keys:
  "zone_loop flt zones recs = Inr zones' \<Longrightarrow> fst ` set zones \<subseteq> fst ` set zones'"
proof (induction recs arbitrary: zones)
  case Nil
  then show ?case by simp
next
  case (Cons r recs)
  from Cons.prems obtain zs where
    b: "zone_body flt zones r = Inr zs" and l: "zone_loop flt zs recs = Inr zones'"
    by (auto simp: bind_err_Inr_iff)
  from b obtain k v where "zs = AList.update k v zones"
    by (auto simp: zone_body_Inr_iff)
  then have "fst ` set zs = {k} \<union> fst ` set zones"
    by (simp add: AList.dom_update)
  then have "fst ` set zones \<subseteq> fst ` set zs" by blast
  with Cons.IH [OF l] show ?case by blast
qed

lemma map_of_append_surface_other:
  "k \<noteq> name \<Longrightarrow> map_of (append_surface k vertices zones) name = map_of zones name"
  by (simp add: append_surface_def AList.map_of_map_entry)

lemma surface_loop_other_zone:
  "surface_loop flt (zones, reported) recs = Inr (zones', reported') \<Longrightarrow>
     \<forall>surface\<in>set recs. surface ! 4 \<noteq> name \<Longrightarrow>
     map_of zones' name = map_of zones name"
proof (induction recs arbitrary: zones reported)
  case Nil
  then show ?case by simp
next
  case (Cons r recs)
  from Cons.prems(1) obtain zs rep where
    b: "surface_body flt (zones, reported) r = Inr (zs, rep)" and
    l: "surface_loop flt (zs, rep) recs = Inr (zones', reported')"
    by (auto simp: bind_err_Inr_iff)
  from Cons.prems(2) have ne: "r ! 4 \<noteq> name" by simp
  from surface_body_cases [OF b] ne have "map_of zs name = map_of zones name"
    by (auto simp: map_of_append_surface_other)
  with Cons.IH [OF l] Cons.prems(2) show ?case by simp
qed

text \<open>
  The first loop returns when every record has six fields of which the fourth to sixth
  convert; with no surface record, the extraction returns its result.
\<close>

lemma zone_loop_returns:
  assumes "\<forall>zone\<in>set recs. 5 < length zone \<and> flt (zone ! 3) \<noteq> None
             \<and> flt (zone ! 4) \<noteq> None \<and> flt (zone ! 5) \<noteq> None"
  shows "\<exists>zones'. zone_loop flt zones recs = Inr zones'"
  using assms
proof (induction recs arbitrary: zones)
  case Nil
  show ?case by simp
next
  case (Cons r recs)
  from Cons.prems obtain x y z where
    "5 < length r" "flt (r ! 3) = Some x" "flt (r ! 4) = Some y" "flt (r ! 5) = Some z"
    by auto
  then obtain zs where "zone_body flt zones r = Inr zs"
    by (auto simp: zone_body_Inr_iff)
  with Cons.IH [of zs] Cons.prems show ?case by auto
qed

text \<open>
  The text \<^verbatim>\<open>ZONE,Z1,,1.0,2.0,3.0;\<close> of the claim's example does not parse: the two
  adjacent commas are two \<^verbatim>\<open>COMMA\<close> tokens with no \<^verbatim>\<open>VALUE\<close> between them, and
  \<^verbatim>\<open>p_error\<close> raises. No record is parsed from it.
\<close>

theorem parse_adjacent_commas_counterexample:
  "parse ''ZONE,Z1,,1.0,2.0,3.0;'' = Inl (ParseError 1)"
  by code_simp

text \<open>
  C3, as amended. For every \<^verbatim>\<open>ZONE\<close> record of a mapping on which \<^verbatim>\<open>extract_zones\<close>
  returns, wherever the record stands among the \<^verbatim>\<open>ZONE\<close> records: the record has six
  fields, its fourth, fifth and sixth fields (\<^verbatim>\<open>zone[3]\<close> to \<^verbatim>\<open>zone[5]\<close>) decode to
  numbers \<open>x\<close>, \<open>y\<close>, \<open>z\<close>, and once the loop has run up to the record, its second
  field \<^verbatim>\<open>zone[1]\<close> is the name of a zone with the origin \<open>(x, y, z)\<close> and no surface.
  In the output that name is still a zone; it has this origin unless a later \<^verbatim>\<open>ZONE\<close>
  record has the same name, and it has no surface when no surface record names it.
  In particular, with a line break and a blank before the second comma the example's text
  parses, to the record \<^verbatim>\<open>['ZONE', 'Z1', '', '1.0', '2.0', '3.0']\<close>, for which zone
  \<^verbatim>\<open>Z1\<close> gets the origin \<open>(1, 2, 3)\<close> and no surface.
\<close>

theorem zone_record_decoding:
  assumes "extract_zones flt parsed_idf = Inr (zones, reported)"
    and "get_list parsed_idf ''ZONE'' = earlier @ zone # later"
  shows "5 < length zone \<and>
    (\<exists>x y z. flt (zone ! 3) = Some x \<and> flt (zone ! 4) = Some y \<and> flt (zone ! 5) = Some z \<and>
       (\<exists>zs. zone_loop flt [] (earlier @ [zone]) = Inr zs \<and>
             map_of zs (zone ! 1) = Some \<lparr>origin = (x, y, z), surfaces = []\<rparr>) \<and>
       (\<exists>zn. map_of zones (zone ! 1) = Some zn \<and>
          ((\<forall>other\<in>set later. other ! 1 \<noteq> zone ! 1) \<longrightarrow> origin zn = (x, y, z)) \<and>
          ((\<forall>surface\<in>set (get_list parsed_idf ''BUILDINGSURFACE:DETAILED'').
               surface ! 4 \<noteq> zone ! 1) \<longrightarrow> surfaces zn = [])))"
proof -
  let ?name = "zone ! 1"
  let ?surfs = "get_list parsed_idf ''BUILDINGSURFACE:DETAILED''"
  from assms(1) obtain zs where
    z: "zone_loop flt [] (get_list parsed_idf ''ZONE'') = Inr zs" and
    s: "surface_loop flt (zs, []) ?surfs = Inr (zones, reported)"
    by (auto simp: extract_zones_def bind_err_Inr_iff)
  from z assms(2) obtain zs1 zs2 where
    e: "zone_loop flt [] earlier = Inr zs1" and
    b: "zone_body flt zs1 zone = Inr zs2" and
    l: "zone_loop flt zs2 later = Inr zs"
    by (auto simp: zone_loop_append bind_err_Inr_iff)
  from b obtain x y z' where
    len: "5 < length zone" and
    f: "flt (zone ! 3) = Some x" "flt (zone ! 4) = Some y" "flt (zone ! 5) = Some z'" and
    zs2: "zs2 = AList.update ?name \<lparr>origin = (x, y, z'), surfaces = []\<rparr> zs1"
    by (auto simp: zone_body_Inr_iff)
  from zs2 have at2: "map_of zs2 ?name = Some \<lparr>origin = (x, y, z'), surfaces = []\<rparr>"
    by (simp add: AList.update_conv')
  from e b have upto: "zone_loop flt [] (earlier @ [zone]) = Inr zs2"
    by (simp add: zone_loop_append)
  from zs2 have "?name \<in> fst ` set zs2" by (simp add: AList.dom_update)
  with zone_loop_keys [OF l] have "?name \<in> fst ` set zs" by blast
  moreover from surface_loop_keeps [OF s] have
    keys: "map fst zones = map fst zs" and
    orig: "\<And>k. map_option origin (map_of zones k) = map_option origin (map_of zs k)"
    by simp_all
  ultimately have "?name \<in> set (map fst zones)" by simp
  then obtain zn where zn: "map_of zones ?name = Some zn"
    by (cases "map_of zones ?name") (auto simp: map_of_eq_None_iff)
  have o: "origin zn = (x, y, z')" if "\<forall>other\<in>set later. other ! 1 \<noteq> ?name"
  proof -
    from zone_loop_other_names [OF l that] at2
    have "map_of zs ?name = Some \<lparr>origin = (x, y, z'), surfaces = []\<rparr>" by simp
    with orig [of ?name] zn show ?thesis by simp
  qed
  have n: "surfaces zn = []" if "\<forall>surface\<in>set ?surfs. surface ! 4 \<noteq> ?name"
  proof -
    from surface_loop_other_zone [OF s that] zn have "map_of zs ?name = Some zn" by simp
    then have "(?name, zn) \<in> set zs" by (rule map_of_SomeD)
    with zone_loop_no_surfaces [OF z] show ?thesis by auto
  qed
  from len f upto at2 zn o n show ?thesis by blast
qed

theorem zone_record_decoding_witness:
  "parse (''ZONE,Z0,0,0,0,0;'' @ [NL] @ ''ZONE,Z1,'' @ [NL] @ '' ,1.0,2.0,3.0;'')
     = Inr [(''ZONE'', [[''ZONE'', ''Z0'', ''0'', ''0'', ''0'', ''0''],
                        [''ZONE'', ''Z1'', '''', ''1.0'', ''2.0'', ''3.0'']])]
   \<and> extract_zones dec_float
         [(''ZONE'', [[''ZONE'', ''Z0'', ''0'', ''0'', ''0'', ''0''],
                      [''ZONE'', ''Z1'', '''', ''1.0'', ''2.0'', ''3.0'']])]
     = Inr ([(''Z0'', \<lparr>origin = (0, 0, 0), surfaces = []\<rparr>),
             (''Z1'', \<lparr>origin = (1, 2, 3), surfaces = []\<rparr>)], [])
   \<and> (\<exists>x y z. dec_float ''1.0'' = Some x \<and> dec_float ''2.0'' = Some y \<and> dec_float ''3.0'' = Some z
        \<and> (\<exists>zn. map_of [(''Z0'', \<lparr>origin = (0, 0, 0), surfaces = []\<rparr>),
                         (''Z1'', \<lparr>origin = (1, 2, 3), surfaces = []\<rparr>)] ''Z1'' = Some zn
              \<and> origin zn = (x, y, z) \<and> surfaces zn = []))"
proof -
  let ?first = "[''ZONE'', ''Z0'', ''0'', ''0'', ''0'', ''0'']"
  let ?zone = "[''ZONE'', ''Z1'', '''', ''1.0'', ''2.0'', ''3.0'']"
  let ?m = "[(''ZONE'', [?first, ?zone])]"
  let ?zones = "[(''Z0'', \<lparr>origin = (0::rat, 0::rat, 0::rat), surfaces = []\<rparr>),
                 (''Z1'', \<lparr>origin = (1, 2, 3), surfaces = []\<rparr>)]"
  have p: "parse (''ZONE,Z0,0,0,0,0;'' @ [NL] @ ''ZONE,Z1,'' @ [NL] @ '' ,1.0,2.0,3.0;'') = Inr ?m"
    by code_simp
  have h: "extract_zones dec_float ?m = Inr (?zones, [])"
    by code_simp
  have g: "get_list ?m ''ZONE'' = [?first] @ ?zone # []"
    by (simp add: get_list_def)
  have s: "get_list ?m ''BUILDINGSURFACE:DETAILED'' = []"
    by (simp add: get_list_def)
  from zone_record_decoding [OF h g]
  have "\<exists>x y z. dec_float ''1.0'' = Some x \<and> dec_float ''2.0'' = Some y \<and> dec_float ''3.0'' = Some z
        \<and> (\<exists>zn. map_of ?zones ''Z1'' = Some zn \<and> origin zn = (x, y, z) \<and> surfaces zn = [])"
    by (simp add: s)
  with p h show ?thesis by blast
qed

text \<open>Several zones: each record puts its own zone into the output.\<close>

lemma zone_record_decoding_example:
  "extract_zones dec_float
     [(''ZONE'', [[''ZONE'', ''Z1'', '''', ''1.0'', ''2.0'', ''3.0''],
                  [''ZONE'', ''Z2'', '''', ''4'', ''5'', ''6''],
                  [''ZONE'', ''Z3'', '''', ''-1'', ''0.5'', ''0'']])]
   = Inr ([(''Z1'', \<lparr>origin = (1, 2, 3), surfaces = []\<rparr>),
           (''Z2'', \<lparr>origin = (4, 5, 6), surfaces = []\<rparr>),
           (''Z3'', \<lparr>origin = (- 1, 1 / 2, 0), surfaces = []\<rparr>)], [])"
  by code_simp

text \<open>
  C4. The owning zone of a surface record is its fifth field, \<^verbatim>\<open>surface[4]\<close>. When that
  name is not a key of the zones built from the \<^verbatim>\<open>ZONE\<close> records, the record has no
  effect: the extraction returns what it returns for the mapping without the record, the
  same zones and the same reported surfaces.
\<close>

theorem unknown_zone_surface_skipped:
  assumes "zone_loop flt [] (get_list parsed_idf ''ZONE'') = Inr zones"
    and "get_list parsed_idf ''BUILDINGSURFACE:DETAILED'' = before @ surface # after"
    and "4 < length surface"
    and "surface ! 4 \<notin> fst ` set zones"
  shows "extract_zones flt parsed_idf
         = extract_zones flt (AList.update ''BUILDINGSURFACE:DETAILED'' (before @ after) parsed_idf)"
proof -
  have skip: "surface_loop flt (zones, []) (before @ surface # after)
              = surface_loop flt (zones, []) (before @ after)"
  proof (cases "surface_loop flt (zones, []) before")
    case (Inl err)
    then show ?thesis by (simp add: surface_loop_append)
  next
    case (Inr st)
    obtain zs rep where st: "st = (zs, rep)" by (cases st)
    from surface_loop_keeps [OF Inr [unfolded st]] have "map fst zs = map fst zones" by simp
    then have "set (map fst zs) = set (map fst zones)" by simp
    with assms(4) have "surface ! 4 \<notin> set (map fst zs)" by simp
    with assms(3) have "surface_body flt (zs, rep) surface = Inr (zs, rep)"
      by (simp add: surface_body_def getitem_def)
    with Inr st show ?thesis by (simp add: surface_loop_append)
  qed
  have "extract_zones flt parsed_idf = surface_loop flt (zones, []) (before @ surface # after)"
    using assms(1,2) by (simp add: extract_zones_def)
  moreover have "extract_zones flt (AList.update ''BUILDINGSURFACE:DETAILED'' (before @ after) parsed_idf)
      = surface_loop flt (zones, []) (before @ after)"
    using assms(1) by (simp add: extract_zones_def get_list_update)
  ultimately show ?thesis using skip by simp
qed

theorem unknown_zone_surface_skipped_witness:
  "zone_loop dec_float []
     (get_list [(''ZONE'', [[''ZONE'', ''Z1'', '''', ''1.0'', ''2.0'', ''3.0'']]),
                (''BUILDINGSURFACE:DETAILED'',
                   [[''BUILDINGSURFACE:DETAILED'', ''S1'', ''Wall'', ''C'', ''Z9'', ''4'',
                     ''0'', ''0'', ''0'', ''1'', ''0'', ''0'', ''1'', ''1'', ''0'', ''0'', ''1'', ''0'']])]
        ''ZONE'')
     = Inr [(''Z1'', \<lparr>origin = (1, 2, 3), surfaces = []\<rparr>)]
   \<and> ''Z9'' \<notin> fst ` set [(''Z1'', \<lparr>origin = (1::rat, 2::rat, 3::rat), surfaces = []\<rparr>)]
   \<and> extract_zones dec_float
        [(''ZONE'', [[''ZONE'', ''Z1'', '''', ''1.0'', ''2.0'', ''3.0'']]),
         (''BUILDINGSURFACE:DETAILED'',
            [[''BUILDINGSURFACE:DETAILED'', ''S1'', ''Wall'', ''C'', ''Z9'', ''4'',
              ''0'', ''0'', ''0'', ''1'', ''0'', ''0'', ''1'', ''1'', ''0'', ''0'', ''1'', ''0'']])]
      = extract_zones dec_float
        [(''ZONE'', [[''ZONE'', ''Z1'', '''', ''1.0'', ''2.0'', ''3.0'']]),
         (''BUILDINGSURFACE:DETAILED'', [])]
   \<and> extract_zones dec_float
        [(''ZONE'', [[''ZONE'', ''Z1'', '''', ''1.0'', ''2.0'', ''3.0'']]),
         (''BUILDINGSURFACE:DETAILED'', [])]
      = Inr ([(''Z1'', \<lparr>origin = (1, 2, 3), surfaces = []\<rparr>)], [])"
proof -
  let ?s = "[''BUILDINGSURFACE:DETAILED'', ''S1'', ''Wall'', ''C'', ''Z9'', ''4'',
              ''0'', ''0'', ''0'', ''1'', ''0'', ''0'', ''1'', ''1'', ''0'', ''0'', ''1'', ''0'']"
  let ?m = "[(''ZONE'', [[''ZONE'', ''Z1'', '''', ''1.0'', ''2.0'', ''3.0'']]),
             (''BUILDINGSURFACE:DETAILED'', [?s])]"
  let ?zones = "[(''Z1'', \<lparr>origin = (1::rat, 2::rat, 3::rat), surfaces = []\<rparr>)]"
  have z: "zone_loop dec_float [] (get_list ?m ''ZONE'') = Inr ?zones"
    by code_simp
  have g: "get_list ?m ''BUILDINGSURFACE:DETAILED'' = [] @ ?s # []"
    by (simp add: get_list_def)
  have l: "4 < length ?s" by simp
  have n: "?s ! 4 \<notin> fst ` set ?zones" by simp
  have e: "extract_zones dec_float
        [(''ZONE'', [[''ZONE'', ''Z1'', '''', ''1.0'', ''2.0'', ''3.0'']]),
         (''BUILDINGSURFACE:DETAILED'', [])] = Inr (?zones, [])"
    by code_simp
  from unknown_zone_surface_skipped [OF z g l n] z n e show ?thesis
    by simp
qed

subsection \<open>What the extraction writes to\<close>

lemma keepsI:
  assumes "\<And>h r h'. fresh_zones n zd h \<Longrightarrow> m h = (r, h') \<Longrightarrow>
     fresh_zones n zd h' \<and> length h \<le> length h' \<and> take n h' = take n h \<and>
     (\<forall>x. r = Inr x \<longrightarrow> Q x)"
  shows "keeps n zd m Q"
  using assms unfolding keeps_def by blast

lemma keepsD:
  assumes "keeps n zd m Q" "fresh_zones n zd h" "m h = (r, h')"
  shows "fresh_zones n zd h'" "length h \<le> length h'" "take n h' = take n h" "r = Inr x \<Longrightarrow> Q x"
  using assms unfolding keeps_def by blast+

lemma keeps_weaken: "keeps n zd m Q \<Longrightarrow> (\<And>x. Q x \<Longrightarrow> R x) \<Longrightarrow> keeps n zd m R"
  unfolding keeps_def by blast

lemma keeps_return: "Q x \<Longrightarrow> keeps n zd (return_h x) Q"
  by (simp add: keeps_def return_h_def)

lemma keeps_lift: "keeps n zd (lift_h r) (\<lambda>_. True)"
  by (simp add: keeps_def lift_h_def)

lemma keeps_bind:
  assumes m: "keeps n zd m Q" and f: "\<And>x. Q x \<Longrightarrow> keeps n zd (f x) R"
  shows "keeps n zd (bind_h m f) R"
proof (rule keepsI)
  fix h r h'
  assume inv: "fresh_zones n zd h" and run: "bind_h m f h = (r, h')"
  obtain r1 h1 where m1: "m h = (r1, h1)" by (cases "m h")
  note k1 = keepsD [OF m inv m1]
  show "fresh_zones n zd h' \<and> length h \<le> length h' \<and> take n h' = take n h \<and>
        (\<forall>x. r = Inr x \<longrightarrow> R x)"
  proof (cases r1)
    case (Inl e)
    with run m1 have "r = Inl e" "h' = h1" by (simp_all add: bind_h_def)
    with k1 show ?thesis by simp
  next
    case (Inr x)
    with run m1 have f1: "f x h1 = (r, h')" by (simp add: bind_h_def)
    from k1(4) [OF Inr] have "keeps n zd (f x) R" by (rule f)
    note k2 = keepsD [OF this k1(1) f1]
    from k1 k2 show ?thesis by auto
  qed
qed

lemma keeps_bind_any:
  assumes "keeps n zd m Q" and "\<And>x. keeps n zd (f x) R"
  shows "keeps n zd (bind_h m f) R"
  using assms by (rule keeps_bind)

lemma keeps_obj_at: "keeps n zd (obj_at v) (\<lambda>_. True)"
  by (auto simp: keeps_def obj_at_def split: val.splits if_splits)

lemma keeps_list_of: "keeps n zd (list_of v) (\<lambda>_. True)"
  unfolding list_of_def
  by (rule keeps_bind_any [OF keeps_obj_at]) (auto split: obj.splits intro: keeps_return keeps_lift)

lemma keeps_dict_of: "keeps n zd (dict_of v) (\<lambda>_. True)"
  unfolding dict_of_def
  by (rule keeps_bind_any [OF keeps_obj_at]) (auto split: obj.splits intro: keeps_return keeps_lift)

lemma fresh_zonesD:
  assumes "fresh_zones n zd h"
  obtains kvs where "n \<le> zd" "zd < length h" "h ! zd = PyDict kvs"
    "\<And>v. v \<in> snd ` set kvs \<Longrightarrow> fresh_entry n zd h v"
  using assms unfolding fresh_zones_def by blast

lemma fresh_zonesI:
  assumes "n \<le> zd" "zd < length h" "h ! zd = PyDict kvs"
    "\<And>v. v \<in> snd ` set kvs \<Longrightarrow> fresh_entry n zd h v"
  shows "fresh_zones n zd h"
  using assms unfolding fresh_zones_def by blast

lemma fresh_entry_append:
  assumes "fresh_entry n zd h v"
  shows "fresh_entry n zd (h @ obs) v"
proof -
  from assms obtain za e sa l where
    w: "v = Ref za" "zd < za" "za < length h" "h ! za = PyDict e"
       "map_of e ''surfaces'' = Some (Ref sa)" "n \<le> sa" "sa < length h" "h ! sa = PyList l"
    unfolding fresh_entry_def by blast
  from w have "(h @ obs) ! za = PyDict e" "(h @ obs) ! sa = PyList l"
    by (simp_all add: nth_append)
  with w show ?thesis unfolding fresh_entry_def by (intro exI [of _ za] exI [of _ e] exI [of _ sa] exI [of _ l]) simp
qed

lemma fresh_zones_append:
  assumes "fresh_zones n zd h"
  shows "fresh_zones n zd (h @ obs)"
proof -
  from assms obtain kvs where
    zd: "n \<le> zd" "zd < length h" "h ! zd = PyDict kvs" and
    ent: "\<And>v. v \<in> snd ` set kvs \<Longrightarrow> fresh_entry n zd h v"
    unfolding fresh_zones_def by blast
  show ?thesis
  proof (rule fresh_zonesI)
    show "n \<le> zd" by (rule zd)
    show "zd < length (h @ obs)" using zd by simp
    show "(h @ obs) ! zd = PyDict kvs" using zd by (simp add: nth_append)
    show "fresh_entry n zd (h @ obs) v" if "v \<in> snd ` set kvs" for v
      using ent [OF that] by (rule fresh_entry_append)
  qed
qed

lemma keeps_alloc: "keeps n zd (alloc ob) (\<lambda>v. \<exists>a. v = Ref a \<and> n \<le> a)"
proof (rule keepsI)
  fix h r h'
  assume inv: "fresh_zones n zd h" and run: "alloc ob h = (r, h')"
  from inv have "n \<le> length h" by (simp add: fresh_zones_def)
  with run fresh_zones_append [OF inv, of "[ob]"]
  show "fresh_zones n zd h' \<and> length h \<le> length h' \<and> take n h' = take n h \<and>
        (\<forall>x. r = Inr x \<longrightarrow> (\<exists>a. x = Ref a \<and> n \<le> a))"
    by (auto simp: alloc_def)
qed

lemma fresh_entry_list_update:
  assumes v: "fresh_entry n zd h v" and a: "a < length h" "h ! a = PyList xs"
  shows "fresh_entry n zd (h[a := PyList ys]) v"
proof -
  from v obtain za e sa l where
    w: "v = Ref za" "zd < za" "za < length h" "h ! za = PyDict e"
       "map_of e ''surfaces'' = Some (Ref sa)" "n \<le> sa" "sa < length h" "h ! sa = PyList l"
    unfolding fresh_entry_def by blast
  from w a have "za \<noteq> a" by auto
  with w have d: "h[a := PyList ys] ! za = PyDict e" by simp
  obtain l' where l': "h[a := PyList ys] ! sa = PyList l'"
    using w a by (cases "sa = a") simp_all
  from w d l' show ?thesis
    unfolding fresh_entry_def
    by (intro exI [of _ za] exI [of _ e] exI [of _ sa] exI [of _ l']) simp
qed

lemma fresh_zones_list_update:
  assumes inv: "fresh_zones n zd h" and a: "a < length h" "h ! a = PyList xs"
  shows "fresh_zones n zd (h[a := PyList ys])"
proof -
  from inv obtain kvs where
    zd: "n \<le> zd" "zd < length h" "h ! zd = PyDict kvs" and
    ent: "\<And>v. v \<in> snd ` set kvs \<Longrightarrow> fresh_entry n zd h v"
    unfolding fresh_zones_def by blast
  from a zd have ne: "a \<noteq> zd" by auto
  show ?thesis
  proof (rule fresh_zonesI)
    show "n \<le> zd" by (rule zd)
    show "zd < length (h[a := PyList ys])" using zd by simp
    show "h[a := PyList ys] ! zd = PyDict kvs" using zd ne by simp
    show "fresh_entry n zd (h[a := PyList ys]) v" if "v \<in> snd ` set kvs" for v
      using ent [OF that] a by (rule fresh_entry_list_update)
  qed
qed

lemma list_append_run:
  "list_append (Ref a) x h =
     (if a < length h then
        (case h ! a of
           PyList xs \<Rightarrow> (Inr (), h[a := PyList (xs @ [x])])
         | PyDict kvs \<Rightarrow> (Inl TypeError, h))
      else (Inl TypeError, h))"
  by (simp add: list_append_def list_of_def obj_at_def put_def bind_h_def return_h_def lift_h_def
      split: obj.splits)

lemma keeps_list_append:
  assumes "n \<le> a"
  shows "keeps n zd (list_append (Ref a) x) (\<lambda>_. True)"
proof (rule keepsI)
  fix h r h'
  assume inv: "fresh_zones n zd h" and run: "list_append (Ref a) x h = (r, h')"
  show "fresh_zones n zd h' \<and> length h \<le> length h' \<and> take n h' = take n h \<and>
        (\<forall>x. r = Inr x \<longrightarrow> True)"
  proof (cases "a < length h")
    case False
    with run have "h' = h" by (simp add: list_append_run)
    with inv show ?thesis by simp
  next
    case True
    show ?thesis
    proof (cases "h ! a")
      case (PyDict kvs)
      with run True have "h' = h" by (simp add: list_append_run)
      with inv show ?thesis by simp
    next
      case (PyList xs)
      with run True have "h' = h[a := PyList (xs @ [x])]" by (simp add: list_append_run)
      with fresh_zones_list_update [OF inv True PyList] assms show ?thesis by simp
    qed
  qed
qed

lemma fresh_zones_new_entry:
  assumes inv: "fresh_zones n zd h" and kvs: "h ! zd = PyDict kvs"
  shows "fresh_zones n zd
           ((h @ [PyList [], PyDict [(''origin'', p), (''surfaces'', Ref (length h))]])
              [zd := PyDict (AList.update k (Ref (Suc (length h))) kvs)])"
proof -
  let ?new = "[PyList [], PyDict [(''origin'', p), (''surfaces'', Ref (length h))]]"
  let ?h2 = "h @ ?new"
  let ?kvs = "AList.update k (Ref (Suc (length h))) kvs"
  let ?h = "?h2[zd := PyDict ?kvs]"
  from inv kvs have zd: "n \<le> zd" "zd < length h" and
    ent: "\<And>v. v \<in> snd ` set kvs \<Longrightarrow> fresh_entry n zd h v"
    unfolding fresh_zones_def by auto
  have at_zd: "?h ! zd = PyDict ?kvs" using zd by simp
  have at_s: "?h ! length h = PyList []" using zd by (simp add: nth_append)
  have at_e: "?h ! Suc (length h) = PyDict [(''origin'', p), (''surfaces'', Ref (length h))]"
    using zd by (simp add: nth_append)
  have old: "?h ! i = h ! i" if "i < length h" "i \<noteq> zd" for i
    using that by (simp add: nth_append)
  show ?thesis
  proof (rule fresh_zonesI)
    show "n \<le> zd" by (rule zd)
    show "zd < length ?h" using zd by simp
    show "?h ! zd = PyDict ?kvs" by (rule at_zd)
    show "fresh_entry n zd ?h v" if v: "v \<in> snd ` set ?kvs" for v
    proof (cases "v = Ref (Suc (length h))")
      case True
      have "map_of [(''origin'', p), (''surfaces'', Ref (length h))] ''surfaces'' = Some (Ref (length h))"
        by simp
      with True zd at_s at_e show ?thesis
        unfolding fresh_entry_def
        by (intro exI [of _ "Suc (length h)"]
            exI [of _ "[(''origin'', p), (''surfaces'', Ref (length h))]"]
            exI [of _ "length h"] exI [of _ "[]"]) simp
    next
      case False
      from v obtain key where "(key, v) \<in> set ?kvs" by auto
      with set_update_subset [of k "Ref (Suc (length h))" kvs] False
      have "(key, v) \<in> set kvs" by auto
      then have "v \<in> snd ` set kvs" by force
      from ent [OF this] obtain za e sa l where
        w: "v = Ref za" "zd < za" "za < length h" "h ! za = PyDict e"
           "map_of e ''surfaces'' = Some (Ref sa)" "n \<le> sa" "sa < length h" "h ! sa = PyList l"
        unfolding fresh_entry_def by blast
      from w kvs have "sa \<noteq> zd" by auto
      with w old [of za] old [of sa] have "?h ! za = PyDict e" "?h ! sa = PyList l" by simp_all
      with w show ?thesis
        unfolding fresh_entry_def
        by (intro exI [of _ za] exI [of _ e] exI [of _ sa] exI [of _ l]) simp
    qed
  qed
qed

lemma dict_set_run:
  "dict_set (Ref zd) key v h =
     (case str_of key of
        Inl e \<Rightarrow> (Inl e, h)
      | Inr k \<Rightarrow>
          if zd < length h then
            (case h ! zd of
               PyDict kvs \<Rightarrow> (Inr (), h[zd := PyDict (AList.update k v kvs)])
             | PyList xs \<Rightarrow> (Inl TypeError, h))
          else (Inl TypeError, h))"
  by (simp add: dict_set_def dict_of_def obj_at_def put_def bind_h_def return_h_def lift_h_def
      split: sum.splits obj.splits)

lemma keeps_new_zone:
  "keeps n zd
     (bind_h (alloc (PyList [])) (\<lambda>surfs.
      bind_h (alloc (PyDict [(''origin'', p), (''surfaces'', surfs)])) (\<lambda>entry.
        dict_set (Ref zd) zone_name entry)))
     (\<lambda>_. True)"
proof (rule keepsI)
  fix h r h'
  let ?h2 = "h @ [PyList [], PyDict [(''origin'', p), (''surfaces'', Ref (length h))]]"
  assume inv: "fresh_zones n zd h"
  assume "bind_h (alloc (PyList [])) (\<lambda>surfs.
      bind_h (alloc (PyDict [(''origin'', p), (''surfaces'', surfs)])) (\<lambda>entry.
        dict_set (Ref zd) zone_name entry)) h = (r, h')"
  then have run: "dict_set (Ref zd) zone_name (Ref (Suc (length h))) ?h2 = (r, h')"
    by (simp add: bind_h_def alloc_def)
  from inv obtain kvs where zd: "n \<le> zd" "zd < length h" "h ! zd = PyDict kvs"
    unfolding fresh_zones_def by blast
  then have zd2: "zd < length ?h2" "?h2 ! zd = PyDict kvs"
    by (simp_all add: nth_append)
  have inv2: "fresh_zones n zd ?h2"
    using inv by (rule fresh_zones_append)
  show "fresh_zones n zd h' \<and> length h \<le> length h' \<and> take n h' = take n h \<and>
        (\<forall>x. r = Inr x \<longrightarrow> True)"
  proof (cases "str_of zone_name")
    case (Inl e)
    with run have "h' = ?h2" by (simp add: dict_set_run)
    with inv2 zd show ?thesis by simp
  next
    case (Inr k)
    with run zd2 have "h' = ?h2[zd := PyDict (AList.update k (Ref (Suc (length h))) kvs)]"
      by (simp add: dict_set_run)
    with fresh_zones_new_entry [OF inv zd(3)] zd show ?thesis by simp
  qed
qed

lemma append_surface_run:
  assumes "zd < length h" "h ! zd = PyDict kvs"
  shows "append_surface_h (Ref zd) zone_name vertices h =
     (case map_of kvs zone_name of
        None \<Rightarrow> (Inl KeyError, h)
      | Some entry \<Rightarrow>
          bind_h (dict_of entry) (\<lambda>items.
          bind_h (lift_h (lookup items ''surfaces'')) (\<lambda>surfs.
            list_append surfs vertices)) h)"
  using assms
  by (simp add: append_surface_h_def dict_of_def obj_at_def bind_h_def return_h_def lift_h_def
      lookup_def split: option.splits)

lemma keeps_append_surface:
  "keeps n zd (append_surface_h (Ref zd) zone_name vertices) (\<lambda>_. True)"
proof (rule keepsI)
  fix h r h'
  assume inv: "fresh_zones n zd h" and run: "append_surface_h (Ref zd) zone_name vertices h = (r, h')"
  from inv obtain kvs where
    zd: "n \<le> zd" "zd < length h" "h ! zd = PyDict kvs" and
    ent: "\<And>v. v \<in> snd ` set kvs \<Longrightarrow> fresh_entry n zd h v"
    unfolding fresh_zones_def by blast
  note run' = run [unfolded append_surface_run [OF zd(2,3)]]
  show "fresh_zones n zd h' \<and> length h \<le> length h' \<and> take n h' = take n h \<and>
        (\<forall>x. r = Inr x \<longrightarrow> True)"
  proof (cases "map_of kvs zone_name")
    case None
    with run' have "h' = h" by simp
    with inv show ?thesis by simp
  next
    case (Some v)
    then have "(zone_name, v) \<in> set kvs" by (rule map_of_SomeD)
    then have "v \<in> snd ` set kvs" by force
    from ent [OF this] obtain za e sa where
      w: "v = Ref za" "za < length h" "h ! za = PyDict e"
         "map_of e ''surfaces'' = Some (Ref sa)" "n \<le> sa"
      unfolding fresh_entry_def by blast
    from run' Some w have "list_append (Ref sa) vertices h = (r, h')"
      by (simp add: dict_of_def obj_at_def bind_h_def return_h_def lift_h_def lookup_def)
    from keepsD(1-3) [OF keeps_list_append [OF w(5)] inv this] show ?thesis by simp
  qed
qed

lemma keeps_vertex_loop:
  assumes "n \<le> a"
  shows "keeps n zd (vertex_loop_h flt items start is (Ref a)) (\<lambda>_. True)"
proof (induction "is")
  case Nil
  show ?case by (simp add: keeps_return)
next
  case (Cons i rest)
  have "keeps n zd
     (bind_h (list_append (Ref a) (point_h x y z))
        (\<lambda>_. vertex_loop_h flt items start rest (Ref a))) (\<lambda>_. True)" for x y z
    by (rule keeps_bind_any [OF keeps_list_append [OF assms] Cons.IH])
  then show ?case
    unfolding vertex_loop_h.simps
    by (intro keeps_bind_any [OF keeps_lift])
qed

lemma keeps_except_ValueError:
  assumes "keeps n zd m (\<lambda>_. True)"
  shows "keeps n zd (except_ValueError m) (\<lambda>_. True)"
proof (rule keepsI)
  fix h r h'
  assume inv: "fresh_zones n zd h" and run: "except_ValueError m h = (r, h')"
  obtain r1 h1 where m1: "m h = (r1, h1)" by (cases "m h")
  with run have "h' = h1"
    by (cases r1) (simp_all add: except_ValueError_def split: if_splits)
  with keepsD(1-3) [OF assms inv m1]
  show "fresh_zones n zd h' \<and> length h \<le> length h' \<and> take n h' = take n h \<and>
        (\<forall>x. r = Inr x \<longrightarrow> True)"
    by simp
qed

lemma keeps_surface_try:
  "keeps n zd (surface_try_h flt (Ref zd) zone_name items) (\<lambda>_. True)"
proof -
  have tail: "keeps n zd
     (bind_h (vertex_loop_h flt items start is vertices)
        (\<lambda>_. append_surface_h (Ref zd) zone_name vertices)) (\<lambda>_. True)"
    if "\<exists>a. vertices = Ref a \<and> n \<le> a" for start "is" and vertices :: "'a val"
  proof -
    from that obtain a where v: "vertices = Ref a" "n \<le> a" by blast
    show ?thesis
      unfolding v(1)
      by (rule keeps_bind_any [OF keeps_vertex_loop [OF v(2)] keeps_append_surface])
  qed
  have "keeps n zd
     (bind_h (alloc (PyList [])) (\<lambda>vertices.
      bind_h (vertex_loop_h flt items start is vertices)
        (\<lambda>_. append_surface_h (Ref zd) zone_name vertices))) (\<lambda>_. True)" for start "is"
    by (rule keeps_bind [OF keeps_alloc tail])
  then show ?thesis
    unfolding surface_try_h_def
    by (intro keeps_bind_any [OF keeps_lift])
qed

lemma keeps_surface_body: "keeps n zd (surface_body_h flt (Ref zd) surface) (\<lambda>_. True)"
proof -
  have "keeps n zd
     (if zone_name \<in> set (map fst kvs)
      then except_ValueError (surface_try_h flt (Ref zd) zone_name items)
      else return_h ()) (\<lambda>_. True)" for zone_name items and kvs :: "(string \<times> 'a val) list"
    by (simp add: keeps_except_ValueError [OF keeps_surface_try] keeps_return)
  then have "keeps n zd
     (bind_h (dict_of (Ref zd)) (\<lambda>kvs.
        if zone_name \<in> set (map fst kvs)
        then except_ValueError (surface_try_h flt (Ref zd) zone_name items)
        else return_h ())) (\<lambda>_. True)" for zone_name items
    by (rule keeps_bind_any [OF keeps_dict_of])
  then have "keeps n zd
     (bind_h (lift_h (bind_err (getitem items 4) str_of)) (\<lambda>zone_name.
      bind_h (dict_of (Ref zd)) (\<lambda>kvs.
        if zone_name \<in> set (map fst kvs)
        then except_ValueError (surface_try_h flt (Ref zd) zone_name items)
        else return_h ()))) (\<lambda>_. True)" for items
    by (rule keeps_bind_any [OF keeps_lift])
  then show ?thesis
    unfolding surface_body_h_def
    by (rule keeps_bind_any [OF keeps_list_of])
qed

lemma keeps_surface_loop: "keeps n zd (surface_loop_h flt (Ref zd) recs) (\<lambda>_. True)"
proof (induction recs)
  case Nil
  show ?case by (simp add: keeps_return)
next
  case (Cons surface rest)
  show ?case
    unfolding surface_loop_h.simps
    by (rule keeps_bind_any [OF keeps_surface_body Cons.IH])
qed

lemma keeps_zone_body: "keeps n zd (zone_body_h flt (Ref zd) zone) (\<lambda>_. True)"
  unfolding zone_body_h_def
  by (intro keeps_bind_any [OF keeps_list_of] keeps_bind_any [OF keeps_lift] keeps_new_zone)

lemma keeps_zone_loop: "keeps n zd (zone_loop_h flt (Ref zd) recs) (\<lambda>_. True)"
proof (induction recs)
  case Nil
  show ?case by (simp add: keeps_return)
next
  case (Cons zone rest)
  show ?case
    unfolding zone_loop_h.simps
    by (rule keeps_bind_any [OF keeps_zone_body Cons.IH])
qed

lemma keeps_dict_get: "keeps n zd (dict_get d key) (\<lambda>_. True)"
proof -
  have "keeps n zd
     (bind_h (alloc (PyList [])) (\<lambda>dflt.
        return_h (case map_of kvs key of None \<Rightarrow> dflt | Some v \<Rightarrow> v))) (\<lambda>_. True)"
    for kvs :: "(string \<times> 'a val) list"
    by (rule keeps_bind_any [OF keeps_alloc]) (simp add: keeps_return)
  then show ?thesis
    unfolding dict_get_def
    by (rule keeps_bind_any [OF keeps_dict_of])
qed

text \<open>
  C10. \<^verbatim>\<open>extract_zones\<close> does not mutate its input: whatever the store and the argument,
  and whether the call returns or raises, the store after the call is the store before
  it, object by object, followed by the objects the call has allocated. In particular
  the mapping, its lists of records and the records are as they were.
\<close>

theorem extract_zones_keeps_input:
  "take (length h) (snd (extract_zones_h flt parsed_idf h)) = h"
proof -
  let ?n = "length h"
  let ?h1 = "h @ [PyDict []]"
  define rest where "rest = (\<lambda>zones :: 'a val.
     bind_h (dict_get parsed_idf ''ZONE'') (\<lambda>zone_list.
     bind_h (list_of zone_list) (\<lambda>zone_recs.
     bind_h (zone_loop_h flt zones zone_recs) (\<lambda>_.
     bind_h (dict_get parsed_idf ''BUILDINGSURFACE:DETAILED'') (\<lambda>surface_list.
     bind_h (list_of surface_list) (\<lambda>surface_recs.
     bind_h (surface_loop_h flt zones surface_recs) (\<lambda>_.
       return_h zones)))))))"
  have k6: "keeps ?n ?n
      (bind_h (surface_loop_h flt (Ref ?n) surface_recs) (\<lambda>_. return_h (Ref ?n))) (\<lambda>_. True)"
    for surface_recs
    by (rule keeps_bind_any [OF keeps_surface_loop]) (simp add: keeps_return)
  have k5: "keeps ?n ?n
      (bind_h (list_of surface_list) (\<lambda>surface_recs.
       bind_h (surface_loop_h flt (Ref ?n) surface_recs) (\<lambda>_. return_h (Ref ?n)))) (\<lambda>_. True)"
    for surface_list
    by (rule keeps_bind_any [OF keeps_list_of k6])
  have k4: "keeps ?n ?n
      (bind_h (dict_get parsed_idf ''BUILDINGSURFACE:DETAILED'') (\<lambda>surface_list.
       bind_h (list_of surface_list) (\<lambda>surface_recs.
       bind_h (surface_loop_h flt (Ref ?n) surface_recs) (\<lambda>_. return_h (Ref ?n)))))
      (\<lambda>_. True)"
    by (rule keeps_bind_any [OF keeps_dict_get k5])
  have k3: "keeps ?n ?n
      (bind_h (zone_loop_h flt (Ref ?n) zone_recs) (\<lambda>_.
       bind_h (dict_get parsed_idf ''BUILDINGSURFACE:DETAILED'') (\<lambda>surface_list.
       bind_h (list_of surface_list) (\<lambda>surface_recs.
       bind_h (surface_loop_h flt (Ref ?n) surface_recs) (\<lambda>_. return_h (Ref ?n))))))
      (\<lambda>_. True)" for zone_recs
    by (rule keeps_bind_any [OF keeps_zone_loop k4])
  have k: "keeps ?n ?n (rest (Ref ?n)) (\<lambda>_. True)"
    unfolding rest_def
    by (rule keeps_bind_any [OF keeps_dict_get keeps_bind_any [OF keeps_list_of k3]])
  have start: "fresh_zones ?n ?n ?h1"
    by (simp add: fresh_zones_def)
  have run: "extract_zones_h flt parsed_idf h = rest (Ref ?n) ?h1"
    by (simp add: extract_zones_h_def rest_def bind_h_def alloc_def)
  obtain r h' where r: "rest (Ref ?n) ?h1 = (r, h')"
    by (cases "rest (Ref ?n) ?h1")
  from keepsD(3) [OF k start r] have "take ?n h' = h" by simp
  with run r show ?thesis by simp
qed

text \<open>
  The store model at work: an ObjectMapping with one zone and two surfaces of that zone,
  the first one with a vertex field that is not a number. The call returns a reference
  to the new dictionary at address 6; the first six objects are the input, unchanged.
\<close>

lemma extract_zones_h_example:
  "extract_zones_h dec_float (Ref 0)
     [PyDict [(''ZONE'', Ref 1), (''BUILDINGSURFACE:DETAILED'', Ref 3)],
      PyList [Ref 2],
      PyList [Str ''ZONE'', Str ''Z1'', Str '''', Str ''1.0'', Str ''2.0'', Str ''3.0''],
      PyList [Ref 4, Ref 5],
      PyList [Str ''BUILDINGSURFACE:DETAILED'', Str ''S1'', Str ''Wall'', Str ''C'', Str ''Z1'',
              Str ''4'', Str ''0'', Str ''0'', Str ''0'', Str ''1'', Str ''x'', Str ''0'',
              Str ''1'', Str ''1'', Str ''0'', Str ''0'', Str ''1'', Str ''0''],
      PyList [Str ''BUILDINGSURFACE:DETAILED'', Str ''S2'', Str ''Wall'', Str ''C'', Str ''Z1'',
              Str ''4'', Str ''0'', Str ''0'', Str ''0'', Str ''1'', Str ''0'', Str ''0'',
              Str ''1'', Str ''1'', Str ''0'', Str ''0'', Str ''1'', Str ''0'']]
   = (Inr (Ref 6),
     [PyDict [(''ZONE'', Ref 1), (''BUILDINGSURFACE:DETAILED'', Ref 3)],
      PyList [Ref 2],
      PyList [Str ''ZONE'', Str ''Z1'', Str '''', Str ''1.0'', Str ''2.0'', Str ''3.0''],
      PyList [Ref 4, Ref 5],
      PyList [Str ''BUILDINGSURFACE:DETAILED'', Str ''S1'', Str ''Wall'', Str ''C'', Str ''Z1'',
              Str ''4'', Str ''0'', Str ''0'', Str ''0'', Str ''1'', Str ''x'', Str ''0'',
              Str ''1'', Str ''1'', Str ''0'', Str ''0'', Str ''1'', Str ''0''],
      PyList [Str ''BUILDINGSURFACE:DETAILED'', Str ''S2'', Str ''Wall'', Str ''C'', Str ''Z1'',
              Str ''4'', Str ''0'', Str ''0'', Str ''0'', Str ''1'', Str ''0'', Str ''0'',
              Str ''1'', Str ''1'', Str ''0'', Str ''0'', Str ''1'', Str ''0''],
      PyDict [(''Z1'', Ref 9)],
      PyList [],
      PyList [Ref 12],
      PyDict [(''origin'', Tuple [Num 1, Num 2, Num 3]), (''surfaces'', Ref 8)],
      PyList [],
      PyList [Tuple [Num 0, Num 0, Num 0]],
      PyList [Tuple [Num 0, Num 0, Num 0], Tuple [Num 1, Num 0, Num 0],
              Tuple [Num 1, Num 1, Num 0], Tuple [Num 0, Num 1, Num 0]]])"
  by code_simp

theorem extract_zones_keeps_input_witness:
  "take 3
     (snd (extract_zones_h dec_float (Ref 0)
        [PyDict [(''ZONE'', Ref 1)], PyList [Ref 2],
         PyList [Str ''ZONE'', Str ''Z1'', Str '''', Str ''1.0'', Str ''2.0'', Str ''3.0'']]))
   = [PyDict [(''ZONE'', Ref 1)], PyList [Ref 2],
      PyList [Str ''ZONE'', Str ''Z1'', Str '''', Str ''1.0'', Str ''2.0'', Str ''3.0'']]"
  using extract_zones_keeps_input
    [of "[PyDict [(''ZONE'', Ref 1)], PyList [Ref 2],
          PyList [Str ''ZONE'', Str ''Z1'', Str '''', Str ''1.0'', Str ''2.0'', Str ''3.0'']]"
        dec_float "Ref 0"]
  by (simp add: numeral_3_eq_3)

subsection \<open>Which failures are confined to a record\<close>

text \<open>
  Whether the body of the first loop fails on a record does not depend on the zones
  built so far, and a failure ends the extraction whatever the other records are.
\<close>

lemma zone_body_fails_anywhere:
  assumes "zone_body flt zones zone = Inl err"
  shows "zone_body flt zones' zone = Inl err"
proof -
  have "zone_body flt zones' zone =
        bind_err (zone_body flt zones zone)
          (\<lambda>_. bind_err (getitem zone 1) (\<lambda>zone_name.
             bind_err (bind_err (getitem zone 3) (py_float flt)) (\<lambda>x.
             bind_err (bind_err (getitem zone 4) (py_float flt)) (\<lambda>y.
             bind_err (bind_err (getitem zone 5) (py_float flt)) (\<lambda>z.
               Inr (AList.update zone_name \<lparr>origin = (x, y, z), surfaces = []\<rparr> zones'))))))"
    by (simp add: zone_body_def bind_err_def split: sum.splits)
  with assms show ?thesis by simp
qed

lemma zone_failure_is_fatal:
  assumes "zone \<in> set (get_list parsed_idf ''ZONE'')" and "zone_body flt [] zone = Inl err"
  shows "\<exists>err'. extract_zones flt parsed_idf = Inl err'"
proof -
  from assms(1) obtain earlier later where
    split: "get_list parsed_idf ''ZONE'' = earlier @ zone # later"
    by (auto simp: in_set_conv_decomp)
  have "\<exists>err'. zone_loop flt [] (earlier @ zone # later) = Inl err'"
  proof (cases "zone_loop flt [] earlier")
    case (Inl e)
    then show ?thesis by (simp add: zone_loop_append)
  next
    case (Inr zones)
    with zone_body_fails_anywhere [OF assms(2), of zones] show ?thesis
      by (simp add: zone_loop_append)
  qed
  with split show ?thesis by (auto simp: extract_zones_def)
qed

text \<open>
  In the second loop, a record of a known zone whose count field is missing, or one of
  whose fields does not convert, is reported and skipped: the zones stay as they are.
\<close>

lemma index_absent: "v \<notin> set xs \<Longrightarrow> index xs v = Inl ValueError"
  by (induction xs) auto

lemma surface_without_count_field:
  "''4'' \<notin> set surface \<Longrightarrow> surface_vertices flt surface = Inl ValueError"
  by (simp add: surface_vertices_def index_absent)

lemma surface_ValueError_is_confined:
  assumes "4 < length surface" and "surface ! 4 \<in> fst ` set zones"
    and "surface_vertices flt surface = Inl ValueError"
  shows "surface_body flt (zones, reported) surface = Inr (zones, reported @ [surface])"
  using assms by (simp add: surface_body_def getitem_def)

end
